theory Spec2Isabelle
  imports Complex_Main "HOL-Library.Word" "HOL-Library.Log_Nat"
begin

section \<open>Python floats, as far as the routing table uses them\<close>

text \<open>
  The routing costs of \<open>node.py\<close> are Python floats, that is IEEE 754 doubles: a
  finite number, one of the two infinities, or NaN. A finite float is \<open>Fin r\<close> for the
  real \<open>r\<close> it stands for, which is a double: a multiple of a power of two with a
  significand of at most 53 bits.
  Comparisons are Python's: every comparison with NaN is false.
\<close>

datatype pyfloat = Fin real | PInf | NInf | NaN

fun py_lt :: "pyfloat \<Rightarrow> pyfloat \<Rightarrow> bool" where
  "py_lt (Fin a) (Fin b) = (a < b)"
| "py_lt (Fin a) PInf = True"
| "py_lt NInf (Fin b) = True"
| "py_lt NInf PInf = True"
| "py_lt _ _ = False"

fun py_le :: "pyfloat \<Rightarrow> pyfloat \<Rightarrow> bool" where
  "py_le (Fin a) (Fin b) = (a \<le> b)"
| "py_le (Fin a) PInf = True"
| "py_le NInf (Fin b) = True"
| "py_le NInf PInf = True"
| "py_le NInf NInf = True"
| "py_le PInf PInf = True"
| "py_le _ _ = False"

fun py_ge :: "pyfloat \<Rightarrow> pyfloat \<Rightarrow> bool" where
  "py_ge (Fin a) (Fin b) = (b \<le> a)"
| "py_ge (Fin a) NInf = True"
| "py_ge PInf (Fin b) = True"
| "py_ge PInf PInf = True"
| "py_ge PInf NInf = True"
| "py_ge NInf NInf = True"
| "py_ge _ _ = False"

text \<open>
  Rounding to a double. \<open>float_exponent x\<close> is the integer \<open>e\<close> with
  \<open>2^e \<le> |x| < 2^(e+1)\<close>, for \<open>x\<close> other than zero: the bit length of the
  integer part when \<open>|x| \<ge> 1\<close>, and otherwise read off the reciprocal.
  \<open>round53 x\<close> is the multiple of \<open>2^(e-52)\<close> nearest to \<open>x\<close>, the even one of two
  that are equally near (round to nearest, ties to even, 53 bits).
\<close>

definition float_exponent :: "real \<Rightarrow> int" where
  "float_exponent x =
     (if 1 \<le> \<bar>x\<bar> then bitlen \<lfloor>\<bar>x\<bar>\<rfloor> - 1 else - bitlen (\<lceil>1 / \<bar>x\<bar>\<rceil> - 1))"

definition round_half_even :: "real \<Rightarrow> int" where
  "round_half_even y =
     (let f = \<lfloor>y\<rfloor>; d = y - of_int f
      in if d < 1/2 then f else if 1/2 < d then f + 1 else if even f then f else f + 1)"

definition round53 :: "real \<Rightarrow> real" where
  "round53 x =
     (if x = 0 then 0
      else let e = float_exponent x
           in if 52 \<le> e
              then of_int (round_half_even (x / 2 ^ nat (e - 52))) * 2 ^ nat (e - 52)
              else of_int (round_half_even (x * 2 ^ nat (52 - e))) / 2 ^ nat (52 - e))"

text \<open>
  The one sum of the program, \<open>reported_value + 1.0\<close>: the exact sum rounded to a
  double. The sum of a double and \<open>1.0\<close> stays below the overflow threshold and is not
  subnormal unless it is zero, so there is no overflow case and no reduced precision.
\<close>

fun py_add_one :: "pyfloat \<Rightarrow> pyfloat" where
  "py_add_one (Fin a) = Fin (round53 (a + 1))"
| "py_add_one PInf = PInf"
| "py_add_one NInf = NInf"
| "py_add_one NaN = NaN"

text \<open>\<open>INF = float('inf')\<close>, the placeholder cost of an unreachable target.\<close>

definition INF_float :: pyfloat where
  "INF_float = PInf"

definition PHEROMONE_MAX_AGE :: real where
  "PHEROMONE_MAX_AGE = 120"

section \<open>The routing table: \<open>PostmareNode\<close> (node.py)\<close>

text \<open>
  \<open>PheromoneEntry\<close> has the slots \<open>value\<close>, \<open>next_hop\<close> and \<open>timestamp\<close>;
  \<open>next_hop\<close> is \<open>Optional[str]\<close>.
\<close>

record pheromone_entry =
  entry_value :: pyfloat
  entry_next_hop :: "string option"
  entry_timestamp :: real

text \<open>
  The node keeps its own fingerprint, the fingerprint of the host (the sink) and the
  table \<open>_table: Dict[str, PheromoneEntry]\<close>. The lock, the running flag and the
  broadcast callback do not enter the table's contents and are left out.
\<close>

record postmare_node =
  self_fp :: string
  host_fp :: string
  table :: "string \<rightharpoonup> pheromone_entry"

text \<open>
  \<open>__init__\<close>: the table starts empty; a node that is the host stores
  \<open>PheromoneEntry(0.0, None, time.time())\<close> under the host's fingerprint. The clock
  reading \<open>time.time()\<close> is the argument \<open>now\<close>.
\<close>

definition init_node :: "string \<Rightarrow> string \<Rightarrow> real \<Rightarrow> postmare_node" where
  "init_node sfp hfp now =
     \<lparr>self_fp = sfp, host_fp = hfp,
      table = (if sfp = hfp
               then [hfp \<mapsto> \<lparr>entry_value = Fin 0, entry_next_hop = None, entry_timestamp = now\<rparr>]
               else Map.empty)\<rparr>"

definition get_next_hop :: "postmare_node \<Rightarrow> string \<Rightarrow> string option" where
  "get_next_hop node target_fp =
     (case table node target_fp of
        Some entry \<Rightarrow> if py_lt (entry_value entry) INF_float then entry_next_hop entry else None
      | None \<Rightarrow> None)"

definition get_pheromone_value :: "postmare_node \<Rightarrow> string \<Rightarrow> pyfloat" where
  "get_pheromone_value node target_fp =
     (case table node target_fp of Some entry \<Rightarrow> entry_value entry | None \<Rightarrow> INF_float)"

definition has_route :: "postmare_node \<Rightarrow> string \<Rightarrow> bool" where
  "has_route node target_fp = (get_next_hop node target_fp \<noteq> None)"

text \<open>
  \<open>update(neighbor_fp, reported_value)\<close> returns the flag and the node after the call.
  The entry written is \<open>PheromoneEntry(new_cost, neighbor_fp, time.time())\<close>.
\<close>

definition update :: "postmare_node \<Rightarrow> string \<Rightarrow> pyfloat \<Rightarrow> real \<Rightarrow> bool \<times> postmare_node" where
  "update node neighbor_fp reported_value now =
     (if py_ge reported_value INF_float then (False, node)
      else
        let new_cost = py_add_one reported_value;
            target = host_fp node;
            current = table node target
        in if current = None \<or> py_lt new_cost (entry_value (the current))
           then (True, node\<lparr>table := (table node)(target \<mapsto>
                   \<lparr>entry_value = new_cost, entry_next_hop = Some neighbor_fp,
                    entry_timestamp = now\<rparr>)\<rparr>)
           else (False, node))"

text \<open>
  One pass of \<open>_decay_loop\<close> at clock reading \<open>now\<close>: every entry other than the one
  under the node's own fingerprint that is older than \<open>PHEROMONE_MAX_AGE\<close> is deleted.
\<close>

definition decay :: "postmare_node \<Rightarrow> real \<Rightarrow> postmare_node" where
  "decay node now =
     node\<lparr>table := (\<lambda>fp. case table node fp of
                            None \<Rightarrow> None
                          | Some e \<Rightarrow> if fp \<noteq> self_fp node \<and> now - entry_timestamp e > PHEROMONE_MAX_AGE
                                      then None else Some e)\<rparr>"

text \<open>A sequence of \<open>update\<close> calls, and the cost to the host after each of them.\<close>

fun run_updates :: "postmare_node \<Rightarrow> (string \<times> pyfloat \<times> real) list \<Rightarrow> postmare_node" where
  "run_updates node [] = node"
| "run_updates node ((nb, c, now) # us) = run_updates (snd (update node nb c now)) us"

fun cost_trace :: "postmare_node \<Rightarrow> (string \<times> pyfloat \<times> real) list \<Rightarrow> pyfloat list" where
  "cost_trace node [] = [get_pheromone_value node (host_fp node)]"
| "cost_trace node ((nb, c, now) # us) =
     get_pheromone_value node (host_fp node) # cost_trace (snd (update node nb c now)) us"

text \<open>The operations that change a table, for the states a node can reach.\<close>

datatype node_op = Update string pyfloat real | Decay real

fun apply_op :: "postmare_node \<Rightarrow> node_op \<Rightarrow> postmare_node" where
  "apply_op node (Update nb c now) = snd (update node nb c now)"
| "apply_op node (Decay now) = decay node now"

fun run_ops :: "postmare_node \<Rightarrow> node_op list \<Rightarrow> postmare_node" where
  "run_ops node [] = node"
| "run_ops node (x # xs) = run_ops (apply_op node x) xs"


text \<open>
  The shape of the entries of a node that is not the host: a next hop is set and the
  cost is not \<open>+\<infinity>\<close>.
\<close>

definition entry_ok :: "postmare_node \<Rightarrow> bool" where
  "entry_ok node =
     (\<forall>fp e. table node fp = Some e \<longrightarrow> entry_next_hop e \<noteq> None \<and> entry_value e \<noteq> PInf)"

section \<open>The delivery queue: \<open>FragmentState\<close> and \<open>PostmareMailbag\<close> (mailbag.py)\<close>

type_synonym byte = "8 word"

text \<open>
  The module constants. The functions below take the chunk size as their first argument
  \<open>cs\<close>, so that they can be run on small files; the program always passes
  \<open>CHUNK_SIZE\<close>, which is positive.
\<close>

definition CHUNK_SIZE :: nat where
  "CHUNK_SIZE = 2 * 1024 * 1024"

definition RETRY_DELAY :: real where
  "RETRY_DELAY = 60"

definition MAX_RETRIES :: int where
  "MAX_RETRIES = 5"

text \<open>
  \<open>FragmentState\<close>: the send state of one file. \<open>sent\<close> is a Python set of chunk
  indices, \<open>total\<close> and \<open>retries\<close> are Python ints.
\<close>

record fragment_state =
  file_path :: string
  file_id :: string
  total :: int
  sent :: "int set"
  retries :: int
  last_try :: real

definition new_fragment_state :: "string \<Rightarrow> string \<Rightarrow> int \<Rightarrow> fragment_state" where
  "new_fragment_state path fid n =
     \<lparr>file_path = path, file_id = fid, total = n, sent = {}, retries = 0, last_try = 0\<rparr>"

text \<open>The property \<open>done\<close>: \<open>len(self.sent) == self.total\<close>.\<close>

definition fs_done :: "fragment_state \<Rightarrow> bool" where
  "fs_done fs = (int (card (sent fs)) = total fs)"

text \<open>The property \<open>pending_indices\<close>: \<open>[i for i in range(self.total) if i not in self.sent]\<close>.\<close>

definition pending_indices :: "fragment_state \<Rightarrow> int list" where
  "pending_indices fs = filter (\<lambda>i. i \<notin> sent fs) [0..total fs - 1]"

text \<open>
  The persisted record, a JSON object. \<open>from_dict\<close> reads \<open>file_id\<close> and \<open>total\<close>
  with \<open>d[...]\<close> (a missing key raises \<open>KeyError\<close>, here \<open>None\<close>) and the other
  keys with \<open>d.get\<close> and a default.
\<close>

record state_dict =
  d_file_id :: "string option"
  d_total :: "int option"
  d_sent :: "int list option"
  d_retries :: "int option"
  d_last_try :: "real option"

definition to_dict :: "fragment_state \<Rightarrow> state_dict" where
  "to_dict fs =
     \<lparr>d_file_id = Some (file_id fs), d_total = Some (total fs),
      d_sent = Some (sorted_list_of_set (sent fs)),
      d_retries = Some (retries fs), d_last_try = Some (last_try fs)\<rparr>"

definition from_dict :: "string \<Rightarrow> state_dict \<Rightarrow> fragment_state option" where
  "from_dict path d =
     (case d_file_id d of
        None \<Rightarrow> None
      | Some fid \<Rightarrow>
          (case d_total d of
             None \<Rightarrow> None
           | Some n \<Rightarrow>
               Some \<lparr>file_path = path, file_id = fid, total = n,
                     sent = set (case d_sent d of None \<Rightarrow> [] | Some xs \<Rightarrow> xs),
                     retries = (case d_retries d of None \<Rightarrow> 0 | Some r \<Rightarrow> r),
                     last_try = (case d_last_try d of None \<Rightarrow> 0 | Some t \<Rightarrow> t)\<rparr>))"

text \<open>
  \<open>_iter_chunks(path, start)\<close>: seek to \<open>start * CHUNK_SIZE\<close>, then read
  \<open>CHUNK_SIZE\<close> bytes at a time until a read returns nothing. The file is its list of
  bytes; \<open>read_chunks\<close> is the \<open>while True\<close> loop on the bytes after the file position.
  Seeking to a negative offset raises (\<open>None\<close>); seeking past the end does not, and
  the first read there is empty.
\<close>

function read_chunks :: "nat \<Rightarrow> byte list \<Rightarrow> int \<Rightarrow> (int \<times> byte list) list" where
  "read_chunks cs rest idx =
     (if take cs rest = [] then []
      else (idx, take cs rest) # read_chunks cs (drop cs rest) (idx + 1))"
  by pat_completeness auto
termination
  by (relation "measure (\<lambda>(cs, rest, idx). length rest)") auto

declare read_chunks.simps [simp del]

definition iter_chunks :: "nat \<Rightarrow> byte list \<Rightarrow> int \<Rightarrow> (int \<times> byte list) list option" where
  "iter_chunks cs file start =
     (if start < 0 then None
      else Some (read_chunks cs (drop (nat start * cs) file) start))"

text \<open>\<open>_total_chunks\<close>: \<open>max(1, (size + CHUNK_SIZE - 1) // CHUNK_SIZE)\<close>, on Python ints.\<close>

definition total_chunks :: "nat \<Rightarrow> nat \<Rightarrow> int" where
  "total_chunks cs sz = max 1 ((int sz + int cs - 1) div int cs)"

text \<open>
  A file in the mailbag directory: its name, whether it is a regular file, and its
  bytes when it can be read (\<open>_file_id\<close> raises otherwise and the scan skips the
  entry).
\<close>

record dir_entry =
  de_name :: string
  de_is_file :: bool
  de_content :: "byte list option"

text \<open>
  The mailbag: the in-memory jobs \<open>_states\<close> and the persisted records of
  \<open>.state/<file_id>.json\<close>, both keyed by file id. \<open>_save_state\<close> writes
  \<open>to_dict\<close> of the job; a failing write is only logged by the program and is not
  modelled.
\<close>

record mailbag =
  is_host :: bool
  states :: "string \<rightharpoonup> fragment_state"
  state_files :: "string \<rightharpoonup> state_dict"

definition save_state :: "fragment_state \<Rightarrow> (string \<rightharpoonup> state_dict) \<Rightarrow> (string \<rightharpoonup> state_dict)" where
  "save_state fs files = files(file_id fs \<mapsto> to_dict fs)"

text \<open>
  The first loop of \<open>_scan_and_send\<close>: every file of the directory that is not hidden
  and whose content hash is not yet a job becomes a job. The hash \<open>_file_id\<close>
  (SHA-256, hexadecimal) is the parameter \<open>hash\<close>.
\<close>

fun discover :: "nat \<Rightarrow> (byte list \<Rightarrow> string) \<Rightarrow> dir_entry list \<Rightarrow> mailbag \<Rightarrow> mailbag" where
  "discover cs hash [] mb = mb"
| "discover cs hash (fp # fps) mb =
     (if take 1 (de_name fp) = ''.'' \<or> \<not> de_is_file fp then discover cs hash fps mb
      else case de_content fp of
             None \<Rightarrow> discover cs hash fps mb
           | Some bytes \<Rightarrow>
               let fid = hash bytes in
               if states mb fid = None
               then let fs = new_fragment_state (de_name fp) fid (total_chunks cs (length bytes))
                    in discover cs hash fps
                         (mb\<lparr>states := (states mb)(fid \<mapsto> fs),
                             state_files := save_state fs (state_files mb)\<rparr>)
               else discover cs hash fps mb)"

definition scan_discover :: "nat \<Rightarrow> (byte list \<Rightarrow> string) \<Rightarrow> dir_entry list \<Rightarrow> mailbag \<Rightarrow> mailbag" where
  "scan_discover cs hash dir mb = (if is_host mb then mb else discover cs hash dir mb)"

text \<open>
  \<open>_send_task\<close>. The callable \<open>send_file_fn(neighbor, local, remote)\<close> is the parameter
  \<open>send\<close>: it gets the next hop, the bytes of the local file (\<open>None\<close> when there is no
  such file) and the remote name \<open>/tmp/postmare_incoming/<file_id>.frag.<idx>\<close>, given
  as the pair of file id and index; it answers true, false, or raises.
  A round records every call of \<open>send\<close> in \<open>calls\<close>.
\<close>

datatype send_result = SendOk | SendFailed | SendRaised

type_synonym send_call = "string \<times> byte list option \<times> string \<times> int"

type_synonym send_fn = "string \<Rightarrow> byte list option \<Rightarrow> string \<times> int \<Rightarrow> send_result"

record send_round =
  job :: fragment_state
  saved :: "string \<rightharpoonup> state_dict"
  calls :: "send_call list"
  raised :: bool

text \<open>
  The chunk of index \<open>idx\<close>, as \<open>_send_task\<close> gets it:
  \<open>next((i, d) for i, d in self._iter_chunks(fs.file_path, idx) if i == idx)\<close>.
  \<open>None\<close> stands for the exception (the file cannot be opened, or the generator is
  exhausted).
\<close>

definition chunk_at :: "nat \<Rightarrow> byte list option \<Rightarrow> int \<Rightarrow> byte list option" where
  "chunk_at cs file idx =
     (case file of
        None \<Rightarrow> None
      | Some bytes \<Rightarrow>
          (case iter_chunks cs bytes idx of
             None \<Rightarrow> None
           | Some chunks \<Rightarrow>
               (case filter (\<lambda>(i, d). i = idx) chunks of
                  [] \<Rightarrow> None
                | (i, d) # _ \<Rightarrow> Some d)))"

text \<open>The loop \<open>for idx in list(fs.pending_indices)\<close> of the multi-chunk path.\<close>

fun send_chunks :: "nat \<Rightarrow> send_fn \<Rightarrow> string \<Rightarrow> byte list option \<Rightarrow> int list \<Rightarrow> send_round \<Rightarrow> send_round" where
  "send_chunks cs send next_hop file [] r = r"
| "send_chunks cs send next_hop file (idx # rest) r =
     (case chunk_at cs file idx of
        None \<Rightarrow> r\<lparr>job := (job r)\<lparr>retries := retries (job r) + 1\<rparr>\<rparr>
      | Some bytes \<Rightarrow>
          let remote = (file_id (job r), idx);
              r1 = r\<lparr>calls := calls r @ [(next_hop, Some bytes, remote)]\<rparr>
          in case send next_hop (Some bytes) remote of
               SendOk \<Rightarrow>
                 let fs = (job r1)\<lparr>sent := insert idx (sent (job r1))\<rparr>
                 in send_chunks cs send next_hop file rest
                      (r1\<lparr>job := fs, saved := save_state fs (saved r1)\<rparr>)
             | SendFailed \<Rightarrow>
                 let fs = (job r1)\<lparr>retries := retries (job r1) + 1\<rparr>
                 in r1\<lparr>job := fs, saved := save_state fs (saved r1)\<rparr>
             | SendRaised \<Rightarrow>
                 r1\<lparr>job := (job r1)\<lparr>retries := retries (job r1) + 1\<rparr>\<rparr>)"

text \<open>
  \<open>_send_task(fs)\<close> at clock reading \<open>now\<close>; \<open>next_hop\<close> is what
  \<open>self._get_next_hop(self.host_fp)\<close> returned. An exception of \<open>send\<close> on the
  single-chunk path is not caught there: the round ends with \<open>raised\<close> set.
\<close>

definition send_task ::
  "nat \<Rightarrow> send_fn \<Rightarrow> string option \<Rightarrow> byte list option \<Rightarrow> real \<Rightarrow> fragment_state
     \<Rightarrow> (string \<rightharpoonup> state_dict) \<Rightarrow> send_round" where
  "send_task cs send next_hop file now fs files =
     (let r0 = \<lparr>job = fs, saved = files, calls = [], raised = False\<rparr> in
      case next_hop of
        None \<Rightarrow> r0
      | Some hop \<Rightarrow>
          if hop = [] then r0
          else
            let fs1 = fs\<lparr>last_try := now\<rparr>;
                r1 = r0\<lparr>job := fs1\<rparr>
            in if total fs1 = 1 \<and> 0 \<notin> sent fs1
               then
                 let remote = (file_id fs1, 0);
                     r2 = r1\<lparr>calls := [(hop, file, remote)]\<rparr>
                 in case send hop file remote of
                      SendOk \<Rightarrow>
                        let fs2 = fs1\<lparr>sent := insert 0 (sent fs1)\<rparr>
                        in r2\<lparr>job := fs2, saved := save_state fs2 files\<rparr>
                    | SendFailed \<Rightarrow>
                        let fs2 = fs1\<lparr>retries := retries fs1 + 1\<rparr>
                        in r2\<lparr>job := fs2, saved := save_state fs2 files\<rparr>
                    | SendRaised \<Rightarrow> r2\<lparr>raised := True\<rparr>
               else send_chunks cs send hop file (pending_indices fs1) r1)"

text \<open>
  The receiving side. Fragments lie in the incoming directory or, as a fallback, under
  \<open>/tmp/postmare_incoming\<close>; both are keyed by file id and index. \<open>_assemble\<close>
  writes the fragments of indices \<open>range(fs.total)\<close> to the output file one after the
  other and unlinks each fragment it has read. A missing fragment raises inside the
  \<open>try\<close>: the function returns with the job still registered.
\<close>

record receiver =
  incoming_frags :: "string \<times> int \<rightharpoonup> byte list"
  tmp_frags :: "string \<times> int \<rightharpoonup> byte list"
  outputs :: "string \<rightharpoonup> byte list"
  rstates :: "string \<rightharpoonup> fragment_state"

fun assemble_frags :: "string \<Rightarrow> int list \<Rightarrow> receiver \<Rightarrow> byte list \<Rightarrow> bool \<times> receiver \<times> byte list" where
  "assemble_frags fid [] rc out = (True, rc, out)"
| "assemble_frags fid (idx # rest) rc out =
     (case incoming_frags rc (fid, idx) of
        Some bytes \<Rightarrow>
          assemble_frags fid rest
            (rc\<lparr>incoming_frags := (incoming_frags rc)((fid, idx) := None)\<rparr>) (out @ bytes)
      | None \<Rightarrow>
          (case tmp_frags rc (fid, idx) of
             Some bytes \<Rightarrow>
               assemble_frags fid rest
                 (rc\<lparr>tmp_frags := (tmp_frags rc)((fid, idx) := None)\<rparr>) (out @ bytes)
           | None \<Rightarrow> (False, rc, out)))"

definition assemble :: "receiver \<Rightarrow> fragment_state \<Rightarrow> receiver" where
  "assemble rc fs =
     (case assemble_frags (file_id fs) [0..total fs - 1] rc [] of
        (ok, rc1, out) \<Rightarrow>
          let rc2 = rc1\<lparr>outputs := (outputs rc1)(take 16 (file_id fs) \<mapsto> out)\<rparr>
          in if ok then rc2\<lparr>rstates := (rstates rc2)(file_id fs := None)\<rparr> else rc2)"

text \<open>What the calls of a send round leave in the receiver's \<open>/tmp/postmare_incoming\<close>.\<close>

fun deliver_calls :: "send_call list \<Rightarrow> (string \<times> int \<rightharpoonup> byte list) \<Rightarrow> (string \<times> int \<rightharpoonup> byte list)" where
  "deliver_calls [] m = m"
| "deliver_calls ((hop, file, remote) # cs) m =
     deliver_calls cs (case file of None \<Rightarrow> m | Some bytes \<Rightarrow> m(remote \<mapsto> bytes))"

text \<open>The chunk index of a recorded call.\<close>

definition call_index :: "send_call \<Rightarrow> int" where
  "call_index c = snd (snd (snd c))"

text \<open>
  \<open>_load_states\<close>, run by \<open>__init__\<close>: for every record \<open>sp\<close> of the state
  directory (in the order of the directory listing), the backing file is looked up as
  \<open>list(self.mailbag_dir.glob(f"*{file_id[:8]}*"))\<close>, the entries of the mailbag
  directory whose name contains the first eight characters of the file id (a file id
  is hexadecimal, so the pattern has no other wildcard). Without such an entry the
  record is unlinked; otherwise the job is reloaded by \<open>from_dict\<close> with the first
  of them as its path. An exception (an unreadable record, a missing key) is logged and
  the record is left alone.
\<close>

fun contains :: "string \<Rightarrow> string \<Rightarrow> bool" where
  "contains pat [] = (pat = [])"
| "contains pat (c # cs) = (take (length pat) (c # cs) = pat \<or> contains pat cs)"

fun load_states :: "dir_entry list \<Rightarrow> string list \<Rightarrow> mailbag \<Rightarrow> mailbag" where
  "load_states dir [] mb = mb"
| "load_states dir (sp # sps) mb =
     (case state_files mb sp of
        None \<Rightarrow> load_states dir sps mb
      | Some d \<Rightarrow>
          (case d_file_id d of
             None \<Rightarrow> load_states dir sps mb
           | Some fid \<Rightarrow>
               (case filter (\<lambda>e. contains (take 8 fid) (de_name e)) dir of
                  [] \<Rightarrow> load_states dir sps (mb\<lparr>state_files := (state_files mb)(sp := None)\<rparr>)
                | candidate # _ \<Rightarrow>
                    (case from_dict (de_name candidate) d of
                       None \<Rightarrow> load_states dir sps mb
                     | Some fs \<Rightarrow> load_states dir sps (mb\<lparr>states := (states mb)(fid \<mapsto> fs)\<rparr>)))))"

text \<open>
  An example of a restart: the mailbag directory holds the file \<open>a.log\<close> of eight
  bytes, four chunks at chunk size two; its content hash is \<open>demo_id\<close>, and the
  record of its job says that the chunks \<open>0\<close> and \<open>2\<close> have been sent.
\<close>

definition demo_id :: string where
  "demo_id = ''9f86d081884c7d65''"

definition demo_file :: "byte list" where
  "demo_file = [1, 2, 3, 4, 5, 6, 7, 8]"

definition demo_dir :: "dir_entry list" where
  "demo_dir = [\<lparr>de_name = ''a.log'', de_is_file = True, de_content = Some demo_file\<rparr>]"

definition demo_record :: state_dict where
  "demo_record =
     \<lparr>d_file_id = Some demo_id, d_total = Some 4, d_sent = Some [0, 2],
      d_retries = Some 0, d_last_try = Some 0\<rparr>"

definition stopped_mailbag :: mailbag where
  "stopped_mailbag = \<lparr>is_host = False, states = Map.empty, state_files = [demo_id \<mapsto> demo_record]\<rparr>"

definition restarted_mailbag :: mailbag where
  "restarted_mailbag =
     scan_discover 2 (\<lambda>bytes. demo_id) demo_dir (load_states demo_dir [demo_id] stopped_mailbag)"

section \<open>The export bridge: \<open>Bridge\<close> (bridge.py)\<close>






























section \<open>Inbound control messages: \<open>PostmareTransport\<close> (transport.py)\<close>

text \<open>
  A decoded JSON value, as \<open>json.loads\<close> builds it. An object is the list of the
  items of the Python dict, so its keys are distinct. A number written without fraction
  or exponent is a Python int (\<open>JInt\<close>), any other number a float (\<open>JNum\<close>,
  which also takes the \<open>NaN\<close> and \<open>Infinity\<close> that \<open>json.loads\<close> accepts).
\<close>

datatype json =
    JNull
  | JBool bool
  | JInt int
  | JNum pyfloat
  | JStr string
  | JArr "json list"
  | JObj "(string \<times> json) list"

text \<open>
  \<open>obj[key]\<close> and \<open>obj.get(key, default)\<close>. \<open>None\<close> stands for the exception:
  \<open>KeyError\<close> for a missing key of a dict, \<open>TypeError\<close> or \<open>AttributeError\<close>
  for a value that is not a dict.
\<close>

definition py_subscript :: "json \<Rightarrow> string \<Rightarrow> json option" where
  "py_subscript obj key = (case obj of JObj kvs \<Rightarrow> map_of kvs key | _ \<Rightarrow> None)"

definition py_get :: "json \<Rightarrow> string \<Rightarrow> json \<Rightarrow> json option" where
  "py_get obj key dflt =
     (case obj of
        JObj kvs \<Rightarrow> Some (case map_of kvs key of None \<Rightarrow> dflt | Some v \<Rightarrow> v)
      | _ \<Rightarrow> None)"

text \<open>
  The library calls of the receive path, which are not code of this program:
  \<open>json.loads(buf.decode())\<close>, \<open>json.dumps(data, sort_keys=True).encode()\<close>,
  \<open>bytes.fromhex\<close>, and paramiko's \<open>key.verify_ssh_sig(payload, Message(sig))\<close>.
  The last one answers with a Boolean (true when the signature verifies, false
  otherwise) or raises.
\<close>

datatype verify_outcome = VerifyRaises | VerifyReturns bool

record 'k library =
  loads :: "byte list \<Rightarrow> json option"
  dumps :: "json \<Rightarrow> byte list"
  fromhex :: "string \<Rightarrow> byte list option"
  verify_ssh_sig :: "'k \<Rightarrow> byte list \<Rightarrow> byte list \<Rightarrow> verify_outcome"

text \<open>
  A handler \<open>callback(sender_fp, payload)\<close> acts on the state of the layer above; it
  returns normally or raises.
\<close>

datatype 's handler_outcome = Done 's | Failed 's

type_synonym 's handler = "string \<Rightarrow> json \<Rightarrow> 's \<Rightarrow> 's handler_outcome"

text \<open>The transport, as far as the receive path reads it: \<open>_known_keys\<close> and \<open>_handlers\<close>.\<close>

record ('k, 's) transport =
  known_keys :: "string \<rightharpoonup> 'k"
  handlers :: "string \<rightharpoonup> 's handler"

text \<open>
  \<open>_verify_signed(packet, sender_fp)\<close>. Every exception inside the \<open>try\<close> gives
  false. The value that \<open>verify_ssh_sig\<close> returns is not looked at: the next statement
  is \<open>return True\<close>.
\<close>

definition verify_signed :: "('k, 's) transport \<Rightarrow> 'k library \<Rightarrow> json \<Rightarrow> string \<Rightarrow> bool" where
  "verify_signed tr lib packet sender_fp =
     (case known_keys tr sender_fp of
        None \<Rightarrow> False
      | Some known_key \<Rightarrow>
          (case py_subscript packet ''data'' of
             None \<Rightarrow> False
           | Some data \<Rightarrow>
               (case py_subscript packet ''signature'' of
                  Some (JStr s) \<Rightarrow>
                    (case fromhex lib s of
                       None \<Rightarrow> False
                     | Some sig \<Rightarrow>
                         (case verify_ssh_sig lib known_key (dumps lib data) sig of
                            VerifyRaises \<Rightarrow> False
                          | VerifyReturns b \<Rightarrow> True))
                | _ \<Rightarrow> False)))"

text \<open>
  What arrives on an inbound connection: the set-up or the reading fails (an exception,
  or no channel within the timeout), or the peer's fingerprint as far as the SSH layer
  has authenticated it, and the bytes read until the peer closed.
\<close>

datatype inbound = ConnFailed | Received "string option" "byte list"

datatype conn_event =
    ConnError
  | NotAuthenticated
  | EmptyMessage
  | BadJson
  | BadSignature
  | NoHandler
  | Handled
  | HandlerRaised
  | Crashed

text \<open>
  \<open>_handle_conn\<close>, with the state \<open>st\<close> that the handlers act on. \<open>Crashed\<close> is an
  exception that nothing catches (\<open>.get\<close> on a value that is not a dict, a message
  type that cannot be a dict key); the state is then as before.
\<close>

definition handle_conn ::
  "('k, 's) transport \<Rightarrow> 'k library \<Rightarrow> inbound \<Rightarrow> 's \<Rightarrow> conn_event \<times> 's" where
  "handle_conn tr lib conn st =
     (case conn of
        ConnFailed \<Rightarrow> (ConnError, st)
      | Received None buf \<Rightarrow> (NotAuthenticated, st)
      | Received (Some peer_fp) buf \<Rightarrow>
          if buf = [] then (EmptyMessage, st)
          else
            (case loads lib buf of
               None \<Rightarrow> (BadJson, st)
             | Some packet \<Rightarrow>
                 if \<not> verify_signed tr lib packet peer_fp then (BadSignature, st)
                 else
                   (case py_get packet ''data'' (JObj []) of
                      None \<Rightarrow> (Crashed, st)
                    | Some data \<Rightarrow>
                        (case py_get data ''type'' JNull of
                           None \<Rightarrow> (Crashed, st)
                         | Some (JStr msg_type) \<Rightarrow>
                             (case handlers tr msg_type of
                                None \<Rightarrow> (NoHandler, st)
                              | Some handler \<Rightarrow>
                                  (case py_subscript packet ''data'' of
                                     None \<Rightarrow> (Crashed, st)
                                   | Some payload \<Rightarrow>
                                       (case handler peer_fp payload st of
                                          Done st' \<Rightarrow> (Handled, st')
                                        | Failed st' \<Rightarrow> (HandlerRaised, st'))))
                         | Some (JArr xs) \<Rightarrow> (Crashed, st)
                         | Some (JObj kvs) \<Rightarrow> (Crashed, st)
                         | Some other \<Rightarrow> (NoHandler, st)))))"

text \<open>
  The handler that \<open>postmare.py\<close> registers for \<open>'pheromone'\<close>:
  \<open>lambda sender_fp, data: self._node.update(sender_fp, data.get('value', float('inf')))\<close>.
  \<open>update\<close> compares the value with \<open>INF\<close> and adds \<open>1.0\<close> to it. A float
  is taken as it is. An int (a JSON Boolean is the int \<open>0\<close> or \<open>1\<close>) compares as
  a number and is converted to a float for the sum, rounded to nearest; an int too large
  for a float raises \<open>OverflowError\<close> there. Any other value raises in the
  comparison. Both exceptions come before the table is touched.
\<close>

definition int_to_float :: "int \<Rightarrow> pyfloat option" where
  "int_to_float i =
     (let r = round53 (of_int i) in if 2 ^ 1024 \<le> \<bar>r\<bar> then None else Some (Fin r))"

definition as_number :: "json \<Rightarrow> pyfloat option" where
  "as_number v =
     (case v of
        JNum x \<Rightarrow> Some x
      | JInt i \<Rightarrow> int_to_float i
      | JBool b \<Rightarrow> Some (Fin (if b then 1 else 0))
      | _ \<Rightarrow> None)"

definition pheromone_handler :: "real \<Rightarrow> postmare_node handler" where
  "pheromone_handler now sender_fp data node =
     (case py_get data ''value'' (JNum PInf) of
        None \<Rightarrow> Failed node
      | Some v \<Rightarrow>
          (case as_number v of
             None \<Rightarrow> Failed node
           | Some reported \<Rightarrow> Done (snd (update node sender_fp reported now))))"

text \<open>
  An example: the bytes of a heartbeat with a signature field, a library that decodes
  them and in which no signature verifies, and a transport that knows the peer
  \<open>''B''\<close> and has the \<open>pheromone\<close> handler registered.
\<close>

definition demo_text :: string where
  \<open>demo_text = ''{"data": {"type": "pheromone", "value": 0.0}, "signature": "00"}''\<close>

definition demo_buf :: "byte list" where
  "demo_buf = map (\<lambda>c. of_nat (of_char c)) demo_text"

definition demo_packet :: json where
  "demo_packet =
     JObj [(''data'', JObj [(''type'', JStr ''pheromone''), (''value'', JNum (Fin 0))]),
           (''signature'', JStr ''00'')]"

definition rejecting_library :: "string library" where
  "rejecting_library =
     \<lparr>loads = (\<lambda>buf. if buf = demo_buf then Some demo_packet else None),
      dumps = (\<lambda>j. []),
      fromhex = (\<lambda>s. if s = ''00'' then Some [0] else None),
      verify_ssh_sig = (\<lambda>k p s. VerifyReturns False)\<rparr>"

definition demo_transport :: "(string, postmare_node) transport" where
  "demo_transport =
     \<lparr>known_keys = [''B'' \<mapsto> ''key of B''],
      handlers = [''pheromone'' \<mapsto> pheromone_handler 5]\<rparr>"


section \<open>Properties of the routing table\<close>

subsection \<open>Comparisons and the single step\<close>

lemma py_lt_trans: "py_lt a b \<Longrightarrow> py_lt b c \<Longrightarrow> py_lt a c"
  by (cases a; cases b; cases c) auto

lemma py_lt_irrefl: "\<not> py_lt a a"
  by (cases a) auto

lemma py_lt_PInf_left: "\<not> py_lt PInf c"
  by (cases c) auto

lemma py_ge_INF: "py_ge c INF_float \<longleftrightarrow> c = PInf"
  by (cases c) (auto simp: INF_float_def)

lemma py_add_one_PInf: "py_add_one c = PInf \<longleftrightarrow> c = PInf"
  by (cases c) auto

lemma py_add_one_NaN: "py_add_one c = NaN \<longleftrightarrow> c = NaN"
  by (cases c) auto

lemma py_le_iff_not_lt: "a \<noteq> NaN \<Longrightarrow> b \<noteq> NaN \<Longrightarrow> py_le b a \<longleftrightarrow> \<not> py_lt a b"
  by (cases a; cases b) auto

text \<open>The exponent is the one that the rounding needs.\<close>

lemma float_exponent_bounds:
  assumes "x \<noteq> 0"
  shows "2 powi (float_exponent x) \<le> \<bar>x\<bar> \<and> \<bar>x\<bar> < 2 powi (float_exponent x + 1)"
proof (cases "1 \<le> \<bar>x\<bar>")
  case True
  define n where "n = \<lfloor>\<bar>x\<bar>\<rfloor>"
  have n: "0 < n" "real_of_int n \<le> \<bar>x\<bar>" "\<bar>x\<bar> < real_of_int n + 1"
    using True by (auto simp: n_def)
  define k where "k = bitlen n"
  have b: "2 ^ nat (k - 1) \<le> n" "n < 2 ^ nat k"
    using bitlen_bounds [OF n(1)] by (simp_all add: k_def)
  have kpos: "0 < k" using b(2) n(1) by (cases "k \<le> 0") auto
  have e: "float_exponent x = k - 1" using True by (simp add: float_exponent_def n_def k_def)
  have "(2::real) ^ nat (k - 1) \<le> real_of_int n" using b(1)
    by (metis of_int_le_iff of_int_numeral of_int_power)
  then have "(2::real) ^ nat (k - 1) \<le> \<bar>x\<bar>" using n(2) by (rule order_trans)
  moreover have "(2::real) powi (k - 1) = 2 ^ nat (k - 1)" using kpos by (simp add: power_int_def)
  ultimately have lo: "(2::real) powi (k - 1) \<le> \<bar>x\<bar>" by (simp only:)
  have "n + 1 \<le> 2 ^ nat k" using b(2) by simp
  then have "real_of_int (n + 1) \<le> 2 ^ nat k"
    by (metis of_int_le_iff of_int_numeral of_int_power)
  then have "\<bar>x\<bar> < (2::real) ^ nat k" using n(3) by simp
  moreover have "(2::real) powi k = 2 ^ nat k" using kpos by (simp add: power_int_def)
  ultimately have hi: "\<bar>x\<bar> < (2::real) powi k" by (simp only:)
  show ?thesis using lo hi by (simp add: e)
next
  case False
  define y where "y = 1 / \<bar>x\<bar>"
  have y: "1 < y" using False assms by (simp add: y_def)
  define m where "m = \<lceil>y\<rceil> - 1"
  have m: "0 < m" "real_of_int m < y" "y \<le> real_of_int m + 1"
    using y by (auto simp: m_def less_ceiling_iff ceiling_correct)
  define k where "k = bitlen m"
  have b: "2 ^ nat (k - 1) \<le> m" "m < 2 ^ nat k"
    using bitlen_bounds [OF m(1)] by (simp_all add: k_def)
  have kpos: "0 < k" using b(2) m(1) by (cases "k \<le> 0") auto
  have e: "float_exponent x = - k" using False by (simp add: float_exponent_def m_def k_def y_def)
  have "(2::real) ^ nat (k - 1) \<le> real_of_int m" using b(1)
    by (metis of_int_le_iff of_int_numeral of_int_power)
  then have ylo: "(2::real) ^ nat (k - 1) < y" using m(2) by linarith
  have "m + 1 \<le> 2 ^ nat k" using b(2) by simp
  then have "real_of_int (m + 1) \<le> 2 ^ nat k"
    by (metis of_int_le_iff of_int_numeral of_int_power)
  then have yhi: "y \<le> (2::real) ^ nat k" using m(3) by simp
  have xpos: "0 < \<bar>x\<bar>" using assms by simp
  have x: "\<bar>x\<bar> = 1 / y" using assms by (simp add: y_def)
  have lo: "(2::real) powi (- k) \<le> \<bar>x\<bar>"
  proof -
    have "1 / (2::real) ^ nat k \<le> 1 / y" using yhi y by (intro divide_left_mono) auto
    then show ?thesis using kpos by (simp add: x power_int_def field_simps)
  qed
  have hi: "\<bar>x\<bar> < (2::real) powi (- k + 1)"
  proof -
    have "0 < y * (2::real) ^ nat (k - 1)" using y by simp
    then have "1 / y < 1 / (2::real) ^ nat (k - 1)" using ylo by (intro divide_strict_left_mono) auto
    moreover have "(2::real) powi (- k + 1) = 1 / 2 ^ nat (k - 1)"
      using kpos by (cases "k = 1") (auto simp: power_int_def field_simps nat_diff_distrib)
    ultimately show ?thesis by (simp add: x)
  qed
  show ?thesis using lo hi by (simp add: e)
qed

text \<open>The sums that the examples below need; each of them is exact.\<close>

lemma round53_examples [simp]:
  "round53 1 = 1" "round53 6 = 6" "round53 (1/2) = 1/2" "round53 (- 1) = - 1" "round53 4 = 4"
  by code_simp+

text \<open>Sums that are not doubles are rounded, a tie to the even neighbour.\<close>

lemma round53_rounds:
  "round53 (2 ^ 53 + 1) = 2 ^ 53" "round53 (2 ^ 53 + 3) = 2 ^ 53 + 4"
  "round53 (1 / 2 ^ 60 + 1) = 1" "round53 (1/10) = 3602879701896397 / 36028797018963968"
  "round53 9007199254740993 = 9007199254740992"
  by code_simp+

lemma host_fp_update: "host_fp (snd (update node nb c now)) = host_fp node"
  by (simp add: update_def Let_def)

lemma self_fp_update: "self_fp (snd (update node nb c now)) = self_fp node"
  by (simp add: update_def Let_def)

lemma cost_missing: "table node t = None \<Longrightarrow> get_pheromone_value node t = PInf"
  by (simp add: get_pheromone_value_def INF_float_def)

lemma update_step_cost:
  "get_pheromone_value (snd (update node nb c now)) (host_fp node)
     = get_pheromone_value node (host_fp node)
   \<or> py_lt (get_pheromone_value (snd (update node nb c now)) (host_fp node))
        (get_pheromone_value node (host_fp node))
   \<or> table node (host_fp node) = None"
  by (auto simp: update_def Let_def get_pheromone_value_def)

lemma update_step_not_above:
  assumes "\<not> py_lt (get_pheromone_value (snd (update node nb c now)) (host_fp node)) x"
  shows "\<not> py_lt (get_pheromone_value node (host_fp node)) x"
  using update_step_cost [of node nb c now] assms
  by (auto dest: py_lt_trans simp: cost_missing py_lt_PInf_left)

lemma update_eq:
  "c \<noteq> PInf \<Longrightarrow>
     update node nb c now =
       (if table node (host_fp node) = None
           \<or> py_lt (py_add_one c) (get_pheromone_value node (host_fp node))
        then (True, node\<lparr>table := (table node)(host_fp node \<mapsto>
                \<lparr>entry_value = py_add_one c, entry_next_hop = Some nb,
                 entry_timestamp = now\<rparr>)\<rparr>)
        else (False, node))"
  by (cases "table node (host_fp node)")
     (auto simp: update_def Let_def py_ge_INF get_pheromone_value_def)

lemma update_reject: "update node nb PInf now = (False, node)"
  by (simp add: update_def py_ge_INF)

lemma update_stored:
  "fst (update node nb c now) \<Longrightarrow>
     get_pheromone_value (snd (update node nb c now)) (host_fp node) = py_add_one c"
  by (auto simp: update_def Let_def get_pheromone_value_def split: if_splits)

subsection \<open>Sequences of updates\<close>

lemma cost_trace_bounded:
  "\<forall>x \<in> set (cost_trace node us). \<not> py_lt (get_pheromone_value node (host_fp node)) x"
proof (induction us arbitrary: node)
  case Nil
  show ?case by (simp add: py_lt_irrefl)
next
  case (Cons u us)
  obtain nb c now where u: "u = (nb, c, now)" by (cases u)
  let ?n = "snd (update node nb c now)"
  have "\<forall>x \<in> set (cost_trace ?n us). \<not> py_lt (get_pheromone_value ?n (host_fp node)) x"
    using Cons.IH [of ?n] by (simp add: host_fp_update)
  then have "\<forall>x \<in> set (cost_trace ?n us). \<not> py_lt (get_pheromone_value node (host_fp node)) x"
    using update_step_not_above by blast
  then show ?case by (simp add: u py_lt_irrefl)
qed

lemma cost_trace_non_increasing:
  "sorted_wrt (\<lambda>a b. \<not> py_lt a b) (cost_trace node us)"
proof (induction us arbitrary: node)
  case Nil
  show ?case by simp
next
  case (Cons u us)
  obtain nb c now where u: "u = (nb, c, now)" by (cases u)
  let ?n = "snd (update node nb c now)"
  have "\<forall>x \<in> set (cost_trace ?n us). \<not> py_lt (get_pheromone_value ?n (host_fp node)) x"
    using cost_trace_bounded [of ?n us] by (simp add: host_fp_update)
  then have "\<forall>x \<in> set (cost_trace ?n us). \<not> py_lt (get_pheromone_value node (host_fp node)) x"
    using update_step_not_above by blast
  then show ?case using Cons.IH [of ?n] by (simp add: u)
qed

lemma update_unchanged:
  "\<not> fst (update node nb c now) \<Longrightarrow> snd (update node nb c now) = node"
  by (cases "table node (host_fp node)") (auto simp: update_def Let_def split: if_splits)

lemma cost_update_not_NaN:
  assumes "c \<noteq> NaN" and "get_pheromone_value node (host_fp node) \<noteq> NaN"
  shows "get_pheromone_value (snd (update node nb c now)) (host_fp node) \<noteq> NaN"
proof (cases "fst (update node nb c now)")
  case True
  then have "get_pheromone_value (snd (update node nb c now)) (host_fp node) = py_add_one c"
    by (rule update_stored)
  then show ?thesis using assms(1) by (simp only: py_add_one_NaN) simp
next
  case False
  then have "snd (update node nb c now) = node" by (rule update_unchanged)
  then show ?thesis using assms(2) by (simp only:) simp
qed

lemma cost_trace_not_NaN:
  "\<forall>u \<in> set us. fst (snd u) \<noteq> NaN \<Longrightarrow> get_pheromone_value node (host_fp node) \<noteq> NaN
     \<Longrightarrow> \<forall>x \<in> set (cost_trace node us). x \<noteq> NaN"
proof (induction us arbitrary: node)
  case Nil
  then show ?case by simp
next
  case (Cons u us)
  obtain nb c now where u: "u = (nb, c, now)" by (cases u)
  let ?n = "snd (update node nb c now)"
  have c: "c \<noteq> NaN" using Cons.prems(1) u by simp
  have "get_pheromone_value ?n (host_fp node) \<noteq> NaN"
    using c Cons.prems(2) by (rule cost_update_not_NaN)
  then have h: "get_pheromone_value ?n (host_fp ?n) \<noteq> NaN"
    unfolding host_fp_update .
  have r: "\<forall>u \<in> set us. fst (snd u) \<noteq> NaN" using Cons.prems(1) by simp
  have "\<forall>x \<in> set (cost_trace ?n us). x \<noteq> NaN"
    using r h by (rule Cons.IH)
  then show ?case using Cons.prems(2) by (simp add: u)
qed

lemma cost_trace_sorted_le:
  assumes "\<forall>u \<in> set us. fst (snd u) \<noteq> NaN" and "get_pheromone_value node (host_fp node) \<noteq> NaN"
  shows "sorted_wrt (\<lambda>a b. py_le b a) (cost_trace node us)"
proof -
  have n: "\<forall>x \<in> set (cost_trace node us). x \<noteq> NaN"
    using assms by (rule cost_trace_not_NaN)
  show ?thesis
  proof (rule sorted_wrt_mono_rel [OF _ cost_trace_non_increasing])
    fix a b
    assume "a \<in> set (cost_trace node us)" "b \<in> set (cost_trace node us)" "\<not> py_lt a b"
    then show "py_le b a" using n by (simp add: py_le_iff_not_lt)
  qed
qed

text \<open>
  Claim C1 (routing convergence), as amended. \<open>cost_trace node us\<close> lists the cost to
  the host before the first and after each call of a sequence \<open>us\<close> of \<open>update\<close>
  calls. When no reported cost is NaN and the cost of the table at the start is not
  NaN, every later cost of the list is less than or equal to every earlier one. A report
  of \<open>+\<infinity>\<close> returns false and leaves the node as it is. Any other report \<open>c\<close> has
  the candidate \<open>c + 1.0\<close>, the floating-point sum (for a finite \<open>c\<close> the exact sum
  rounded to a double); the call writes the entry \<open>{candidate, neighbor, now}\<close> and
  returns true exactly when the host has no entry or the candidate is strictly less than
  the stored cost, and otherwise returns false with the node unchanged. Whenever a
  call returns true, the cost it leaves is that candidate.
\<close>

theorem update_routing_convergence:
  "((\<forall>u \<in> set us. fst (snd u) \<noteq> NaN) \<and> get_pheromone_value node (host_fp node) \<noteq> NaN \<longrightarrow>
      sorted_wrt (\<lambda>earlier later. py_le later earlier) (cost_trace node us))
   \<and> update node nb PInf now = (False, node)
   \<and> (c \<noteq> PInf \<longrightarrow>
        update node nb c now =
          (if table node (host_fp node) = None
              \<or> py_lt (py_add_one c) (get_pheromone_value node (host_fp node))
           then (True, node\<lparr>table := (table node)(host_fp node \<mapsto>
                   \<lparr>entry_value = py_add_one c, entry_next_hop = Some nb,
                    entry_timestamp = now\<rparr>)\<rparr>)
           else (False, node)))
   \<and> (fst (update node nb c now) \<longrightarrow>
        get_pheromone_value (snd (update node nb c now)) (host_fp node) = py_add_one c)
   \<and> py_add_one (Fin r) = Fin (round53 (r + 1))"
  using cost_trace_sorted_le [of us node] update_reject update_eq [of c node nb now]
    update_stored [of node nb c now]
  by simp

theorem update_routing_convergence_witness:
  "list_all (\<lambda>u. fst (snd u) \<noteq> NaN)
      [(''B'', Fin 0, 1 :: real), (''C'', Fin 5, 2), (''D'', Fin (- (1/2)), 3), (''E'', Fin (1/2), 4)]
   \<and> get_pheromone_value (init_node ''A'' ''H'' 0) ''H'' \<noteq> NaN
   \<and> Fin 0 \<noteq> PInf
   \<and> fst (update (init_node ''A'' ''H'' 0) ''B'' (Fin 0) 1)
   \<and> get_pheromone_value (snd (update (init_node ''A'' ''H'' 0) ''B'' (Fin 0) 1)) ''H'' = Fin 1
   \<and> cost_trace (init_node ''A'' ''H'' 0)
        [(''B'', Fin 0, 1), (''C'', Fin 5, 2), (''D'', Fin (- (1/2)), 3), (''E'', Fin (1/2), 4)]
       = [PInf, Fin 1, Fin 1, Fin (1/2), Fin (1/2)]
   \<and> sorted_wrt (\<lambda>earlier later. py_le later earlier) [PInf, Fin 1, Fin 1, Fin (1/2), Fin (1/2)]"
proof -
  have r: "round53 (3/2) = 3/2" by code_simp
  show ?thesis
    using update_routing_convergence [of
      "[(''B'', Fin 0, 1), (''C'', Fin 5, 2), (''D'', Fin (- (1/2)), 3), (''E'', Fin (1/2), 4)]"
      "init_node ''A'' ''H'' 0" "''B''" 1 "Fin 0" 0]
    by (simp add: init_node_def update_def get_pheromone_value_def INF_float_def Let_def r)
qed

text \<open>
  The claim as stated fails for a report of NaN. On an empty table the report is
  stored: the call returns true and the cost goes from \<open>+\<infinity>\<close> to NaN, which is not
  less than or equal to \<open>+\<infinity>\<close>; no later report replaces it. It also fails when
  \<open>c + 1\<close> is read as the exact sum: the report \<open>2^53\<close> stores the float sum
  \<open>2^53\<close>, which is less than \<open>2^53 + 1\<close>.
\<close>

theorem nan_report_counterexample:
  "update (init_node ''A'' ''H'' 0) ''B'' NaN 1 =
     (True, \<lparr>self_fp = ''A'', host_fp = ''H'',
             table = [''H'' \<mapsto> \<lparr>entry_value = NaN, entry_next_hop = Some ''B'',
                                 entry_timestamp = 1\<rparr>]\<rparr>)
   \<and> cost_trace (init_node ''A'' ''H'' 0) [(''B'', NaN, 1), (''C'', Fin 0, 2)] = [PInf, NaN, NaN]
   \<and> \<not> py_le NaN PInf
   \<and> \<not> sorted_wrt (\<lambda>earlier later. py_le later earlier) [PInf, NaN, NaN]
   \<and> get_pheromone_value (snd (update (init_node ''A'' ''H'' 0) ''B'' (Fin (2 ^ 53)) 1)) ''H''
       = Fin (2 ^ 53)
   \<and> py_lt (Fin (2 ^ 53)) (Fin (2 ^ 53 + 1))"
  by (simp add: init_node_def update_def get_pheromone_value_def INF_float_def Let_def
        round53_rounds)

text \<open>
  Claim C6 (the concrete scenario). On a node that is not the host, with an empty table:
  \<open>update("B", 0.0)\<close> gives cost \<open>1.0\<close> through \<open>"B"\<close>; \<open>update("C", 5.0)\<close> changes
  neither; \<open>update("D", -0.5)\<close> gives cost \<open>0.5\<close> through \<open>"D"\<close>. The clock readings
  are arbitrary.
\<close>

theorem concrete_scenario:
  "sfp \<noteq> hfp \<Longrightarrow>
   (let n0 = init_node sfp hfp t0;
        n1 = snd (update n0 ''B'' (Fin 0) t1);
        n2 = snd (update n1 ''C'' (Fin 5) t2);
        n3 = snd (update n2 ''D'' (Fin (- (1/2))) t3)
    in get_pheromone_value n0 hfp = PInf \<and> get_next_hop n0 hfp = None
     \<and> fst (update n0 ''B'' (Fin 0) t1)
     \<and> get_pheromone_value n1 hfp = Fin 1 \<and> get_next_hop n1 hfp = Some ''B''
     \<and> \<not> fst (update n1 ''C'' (Fin 5) t2)
     \<and> get_pheromone_value n2 hfp = Fin 1 \<and> get_next_hop n2 hfp = Some ''B''
     \<and> fst (update n2 ''D'' (Fin (- (1/2))) t3)
     \<and> get_next_hop n3 hfp = Some ''D'' \<and> get_pheromone_value n3 hfp = Fin (1/2))"
  by (simp add: init_node_def update_def get_pheromone_value_def get_next_hop_def
        INF_float_def Let_def)

theorem concrete_scenario_witness:
  "''A'' \<noteq> ''H''
   \<and> get_pheromone_value (snd (update (init_node ''A'' ''H'' 0) ''B'' (Fin 0) 1)) ''H'' = Fin 1
   \<and> get_next_hop (snd (update (snd (update (snd (update (init_node ''A'' ''H'' 0)
         ''B'' (Fin 0) 1)) ''C'' (Fin 5) 2)) ''D'' (Fin (- (1/2))) 3)) ''H'' = Some ''D''"
  using concrete_scenario [of "''A''" "''H''" 0 1 2 3]
  by (simp add: Let_def)

subsection \<open>The host's own entry\<close>

text \<open>
  The entry of a host survives every pass of the aging loop, and every report whose
  cost plus one is not negative.
\<close>

lemma host_entry_decay:
  "self_fp node = host_fp node \<Longrightarrow> table (decay node now) (host_fp node) = table node (host_fp node)"
  by (simp add: decay_def split: option.splits)

lemma host_entry_update_kept:
  "table node (host_fp node) = Some e \<Longrightarrow> entry_value e = Fin 0 \<Longrightarrow> \<not> py_lt (py_add_one c) (Fin 0)
     \<Longrightarrow> update node nb c now = (False, node)"
  by (simp add: update_def Let_def)

text \<open>
  Claim C4 (self as sink). The claim fails for a report below \<open>-1\<close>: on the host
  \<open>''H''\<close>, whose entry is \<open>{0, none}\<close>, the call \<open>update(''B'', -2.0)\<close> finds the
  candidate \<open>-1.0\<close> less than \<open>0\<close>, returns true and overwrites the entry; the host
  then reports cost \<open>-1\<close> and next hop \<open>''B''\<close>.
\<close>

theorem sink_entry_overwritten:
  "get_pheromone_value (init_node ''H'' ''H'' 0) ''H'' = Fin 0
   \<and> get_next_hop (init_node ''H'' ''H'' 0) ''H'' = None
   \<and> update (init_node ''H'' ''H'' 0) ''B'' (Fin (- 2)) 1 =
       (True, \<lparr>self_fp = ''H'', host_fp = ''H'',
               table = [''H'' \<mapsto> \<lparr>entry_value = Fin (- 1), entry_next_hop = Some ''B'',
                                   entry_timestamp = 1\<rparr>]\<rparr>)
   \<and> get_pheromone_value (snd (update (init_node ''H'' ''H'' 0) ''B'' (Fin (- 2)) 1)) ''H'' = Fin (- 1)
   \<and> get_next_hop (snd (update (init_node ''H'' ''H'' 0) ''B'' (Fin (- 2)) 1)) ''H'' = Some ''B''"
  by (simp add: init_node_def update_def get_pheromone_value_def get_next_hop_def
        INF_float_def Let_def)

subsection \<open>Next hop and cost of an entry\<close>

lemma entry_ok_update: "entry_ok node \<Longrightarrow> entry_ok (snd (update node nb c now))"
  by (auto simp: entry_ok_def update_def Let_def py_ge_INF py_add_one_PInf split: if_splits)

lemma entry_ok_decay: "entry_ok node \<Longrightarrow> entry_ok (decay node now)"
  by (auto simp: entry_ok_def decay_def split: option.splits if_splits)

lemma entry_ok_run: "entry_ok node \<Longrightarrow> entry_ok (run_ops node ops)"
proof (induction ops arbitrary: node)
  case Nil
  then show ?case by simp
next
  case (Cons x xs)
  then show ?case by (cases x) (simp_all add: entry_ok_update entry_ok_decay)
qed

lemma entry_ok_init: "sfp \<noteq> hfp \<Longrightarrow> entry_ok (init_node sfp hfp t0)"
  by (simp add: entry_ok_def init_node_def)

text \<open>
  Claim C8 (next hop and cost), as amended. On a node that is not the host, after any
  sequence of updates and aging passes, every entry of the table has a next hop and a
  cost other than \<open>+\<infinity>\<close>, so for it the next hop is none if and only if the cost is
  \<open>+\<infinity>\<close>; a target without an entry reads as cost \<open>+\<infinity>\<close> with no next hop.
\<close>

theorem route_entry_invariant:
  assumes "sfp \<noteq> hfp"
  shows "(\<forall>fp e. table (run_ops (init_node sfp hfp t0) ops) fp = Some e \<longrightarrow>
            entry_next_hop e \<noteq> None \<and> entry_value e \<noteq> PInf
            \<and> (entry_next_hop e = None \<longleftrightarrow> entry_value e = PInf))
       \<and> (\<forall>fp. table (run_ops (init_node sfp hfp t0) ops) fp = None \<longrightarrow>
            get_next_hop (run_ops (init_node sfp hfp t0) ops) fp = None
            \<and> get_pheromone_value (run_ops (init_node sfp hfp t0) ops) fp = PInf)"
  using entry_ok_run [OF entry_ok_init [OF assms], of t0 ops]
  by (auto simp: entry_ok_def get_next_hop_def get_pheromone_value_def INF_float_def)

theorem route_entry_invariant_witness:
  "''A'' \<noteq> ''H''
   \<and> table (run_ops (init_node ''A'' ''H'' 0) [Update ''B'' (Fin 0) 1, Decay 200, Update ''C'' (Fin 3) 201]) ''H''
       = Some \<lparr>entry_value = Fin 4, entry_next_hop = Some ''C'', entry_timestamp = 201\<rparr>
   \<and> table (run_ops (init_node ''A'' ''H'' 0) [Update ''B'' (Fin 0) 1, Decay 200, Update ''C'' (Fin 3) 201]) ''X''
       = None
   \<and> get_pheromone_value (run_ops (init_node ''A'' ''H'' 0)
        [Update ''B'' (Fin 0) 1, Decay 200, Update ''C'' (Fin 3) 201]) ''X'' = PInf"
  using route_entry_invariant [of "''A''" "''H''" 0
      "[Update ''B'' (Fin 0) 1, Decay 200, Update ''C'' (Fin 3) 201]"]
  by (simp add: init_node_def update_def decay_def PHEROMONE_MAX_AGE_def INF_float_def Let_def)

text \<open>
  The claim as stated fails on the host itself: its initial entry has no next hop and
  cost \<open>0\<close>.
\<close>

theorem sink_entry_counterexample:
  "table (init_node ''H'' ''H'' 0) ''H'' =
     Some \<lparr>entry_value = Fin 0, entry_next_hop = None, entry_timestamp = 0\<rparr>
   \<and> \<not> (entry_next_hop \<lparr>entry_value = Fin 0, entry_next_hop = None, entry_timestamp = 0\<rparr> = None
        \<longleftrightarrow> entry_value \<lparr>entry_value = Fin 0, entry_next_hop = None, entry_timestamp = 0\<rparr> = PInf)
   \<and> get_next_hop (init_node ''H'' ''H'' 0) ''H'' = None
   \<and> get_pheromone_value (init_node ''H'' ''H'' 0) ''H'' = Fin 0"
  by (simp add: init_node_def get_next_hop_def get_pheromone_value_def INF_float_def)

section \<open>Properties of the delivery queue\<close>

subsection \<open>Chunk counts\<close>

lemma ceil_div_chunks:
  assumes "0 < cs"
  shows "(int n + int cs - 1) div int cs = \<lceil>real n / real cs\<rceil>"
proof -
  define c where "c = int cs"
  define a where "a = int n"
  define q where "q = (a + c - 1) div c"
  define r where "r = (a + c - 1) mod c"
  have c: "0 < c" using assms by (simp add: c_def)
  have r: "0 \<le> r" "r < c" using c by (simp_all add: r_def)
  have eq: "a + c - 1 = c * q + r" by (simp add: q_def r_def)
  have up: "a \<le> c * q" using eq r by linarith
  have lo: "c * (q - 1) < a" using eq r by (simp add: algebra_simps)
  have rc: "0 < real_of_int c" using c by simp
  have "real_of_int a / real_of_int c \<le> real_of_int q"
    using up rc by (simp add: pos_divide_le_eq mult.commute flip: of_int_mult)
  moreover have "real_of_int q - 1 < real_of_int a / real_of_int c"
  proof -
    have "real_of_int (c * (q - 1)) < real_of_int a" using lo by (simp only: of_int_less_iff)
    then have "(real_of_int q - 1) * real_of_int c < real_of_int a" by (simp add: mult.commute)
    then show ?thesis using rc by (simp add: pos_less_divide_eq)
  qed
  ultimately have "\<lceil>real_of_int a / real_of_int c\<rceil> = q" by (intro ceiling_unique) auto
  then show ?thesis by (simp add: q_def a_def c_def)
qed

lemma total_chunks_ceiling:
  "0 < cs \<Longrightarrow> total_chunks cs n = max 1 \<lceil>real n / real cs\<rceil>"
  by (simp add: total_chunks_def ceil_div_chunks)

lemma total_chunks_pos_size:
  assumes "0 < cs" "0 < n"
  shows "total_chunks cs n = \<lceil>real n / real cs\<rceil>"
proof -
  have "0 < real n / real cs" using assms by simp
  then have "1 \<le> \<lceil>real n / real cs\<rceil>" by (simp add: ceiling_le_iff less_ceiling_iff Suc_le_eq)
  then show ?thesis using assms by (simp add: total_chunks_ceiling)
qed

lemma discover_keeps:
  "states mb fid = Some fs \<Longrightarrow> states (discover cs hash dir mb) fid = Some fs"
proof (induction dir arbitrary: mb)
  case Nil
  then show ?case by simp
next
  case (Cons fp fps)
  show ?case
  proof (cases "de_content fp")
    case None
    then show ?thesis using Cons by simp
  next
    case (Some bytes)
    let ?fs = "new_fragment_state (de_name fp) (hash bytes) (total_chunks cs (length bytes))"
    let ?mb = "mb\<lparr>states := (states mb)(hash bytes \<mapsto> ?fs),
                  state_files := save_state ?fs (state_files mb)\<rparr>"
    have "states mb (hash bytes) = None \<Longrightarrow> states ?mb fid = Some fs"
      using Cons.prems by auto
    then have "states mb (hash bytes) = None \<Longrightarrow> states (discover cs hash fps ?mb) fid = Some fs"
      by (rule Cons.IH)
    then show ?thesis using Some Cons by (simp add: Let_def)
  qed
qed

lemma discover_new_job:
  assumes "states mb fid = None" "states (discover cs hash dir mb) fid = Some fs"
  shows "\<exists>fp \<in> set dir. \<exists>bytes. de_content fp = Some bytes \<and> hash bytes = fid
           \<and> take 1 (de_name fp) \<noteq> ''.'' \<and> de_is_file fp
           \<and> fs = new_fragment_state (de_name fp) fid (total_chunks cs (length bytes))"
  using assms
proof (induction dir arbitrary: mb)
  case Nil
  then show ?case by simp
next
  case (Cons fp fps)
  show ?case
  proof (cases "take 1 (de_name fp) = ''.'' \<or> \<not> de_is_file fp \<or> de_content fp = None")
    case True
    then have "discover cs hash (fp # fps) mb = discover cs hash fps mb" by auto
    then show ?thesis using Cons by auto
  next
    case False
    then obtain bytes where b: "de_content fp = Some bytes" by auto
    show ?thesis
    proof (cases "hash bytes = fid")
      case True
      let ?fs = "new_fragment_state (de_name fp) fid (total_chunks cs (length bytes))"
      let ?mb = "mb\<lparr>states := (states mb)(fid \<mapsto> ?fs), state_files := save_state ?fs (state_files mb)\<rparr>"
      have "discover cs hash (fp # fps) mb = discover cs hash fps ?mb"
        using False b True Cons.prems(1) by (simp add: Let_def)
      moreover have "states (discover cs hash fps ?mb) fid = Some ?fs"
        by (rule discover_keeps) simp
      ultimately have "fs = ?fs" using Cons.prems(2) by simp
      then show ?thesis using False b True by auto
    next
      case neq: False
      have "\<exists>mb'. discover cs hash (fp # fps) mb = discover cs hash fps mb' \<and> states mb' fid = None"
        using False b neq Cons.prems(1) by (auto simp: Let_def)
      then obtain mb' where m: "discover cs hash (fp # fps) mb = discover cs hash fps mb'"
        "states mb' fid = None" by blast
      then show ?thesis using Cons.IH [of mb'] Cons.prems(2) by auto
    qed
  qed
qed


text \<open>
  Claim C9 (chunk count of a discovered file), as amended. For a positive chunk size, the
  job that the scan creates for a file has \<open>total = max(1, ceil(size / chunkSize))\<close>:
  this is \<open>ceil(size / chunkSize)\<close> for a file that is not empty, and \<open>1\<close> for an
  empty file.
\<close>

theorem discovered_job_total_chunks:
  assumes "0 < cs" and "\<not> is_host mb" and "states mb fid = None"
    and "states (scan_discover cs hash dir mb) fid = Some fs"
  shows "\<exists>fp \<in> set dir. \<exists>bytes. de_content fp = Some bytes \<and> hash bytes = fid
           \<and> file_path fs = de_name fp
           \<and> total fs = max 1 \<lceil>real (length bytes) / real cs\<rceil>
           \<and> (0 < length bytes \<longrightarrow> total fs = \<lceil>real (length bytes) / real cs\<rceil>)
           \<and> (length bytes = 0 \<longrightarrow> total fs = 1)"
proof -
  have "states (discover cs hash dir mb) fid = Some fs"
    using assms(2,4) by (simp add: scan_discover_def)
  from discover_new_job [OF assms(3) this]
  obtain fp bytes where h: "fp \<in> set dir" "de_content fp = Some bytes" "hash bytes = fid"
    "fs = new_fragment_state (de_name fp) fid (total_chunks cs (length bytes))" by blast
  have t: "total fs = total_chunks cs (length bytes)" "file_path fs = de_name fp"
    using h(4) by (simp_all add: new_fragment_state_def)
  have "total fs = max 1 \<lceil>real (length bytes) / real cs\<rceil>"
    using t assms(1) by (simp add: total_chunks_ceiling)
  moreover have "0 < length bytes \<longrightarrow> total fs = \<lceil>real (length bytes) / real cs\<rceil>"
    using t assms(1) by (simp add: total_chunks_pos_size)
  moreover have "length bytes = 0 \<longrightarrow> total fs = 1"
    using t assms(1) by (auto simp: total_chunks_ceiling)
  ultimately show ?thesis using h t by blast
qed

theorem discovered_job_total_chunks_witness:
  "(0::nat) < 4
   \<and> \<not> is_host \<lparr>is_host = False, states = Map.empty, state_files = Map.empty\<rparr>
   \<and> states \<lparr>is_host = False, states = Map.empty, state_files = Map.empty\<rparr> ''f1'' = None
   \<and> states (scan_discover 4 (\<lambda>b. ''f1'')
        [\<lparr>de_name = ''a.log'', de_is_file = True,
          de_content = Some [1, 2, 3, 4, 5, 6, 7, 8, 9, 10]\<rparr>]
        \<lparr>is_host = False, states = Map.empty, state_files = Map.empty\<rparr>) ''f1''
       = Some (new_fragment_state ''a.log'' ''f1'' 3)
   \<and> (\<exists>fp \<in> set [\<lparr>de_name = ''a.log'', de_is_file = True,
                     de_content = Some [1, 2, 3, 4, 5, 6, 7, 8, 9, 10 :: byte]\<rparr>].
        \<exists>bytes. de_content fp = Some bytes
          \<and> total (new_fragment_state ''a.log'' ''f1'' 3) = \<lceil>real (length bytes) / real (4::nat)\<rceil>)"
proof -
  let ?mb = "\<lparr>is_host = False, states = Map.empty, state_files = Map.empty\<rparr>"
  let ?dir = "[\<lparr>de_name = ''a.log'', de_is_file = True,
          de_content = Some [1, 2, 3, 4, 5, 6, 7, 8, 9, 10 :: byte]\<rparr>]"
  have s: "states (scan_discover 4 (\<lambda>b. ''f1'') ?dir ?mb) ''f1''
       = Some (new_fragment_state ''a.log'' ''f1'' 3)"
    by (simp add: scan_discover_def total_chunks_def Let_def)
  have "\<exists>fp \<in> set ?dir. \<exists>bytes. de_content fp = Some bytes
          \<and> total (new_fragment_state ''a.log'' ''f1'' 3) = \<lceil>real (length bytes) / real (4::nat)\<rceil>"
    using discovered_job_total_chunks [of 4 ?mb "''f1''" "\<lambda>b. ''f1''" ?dir, OF _ _ _ s]
    by auto
  then show ?thesis using s by simp
qed

text \<open>
  The claim as stated fails on an empty file: \<open>_total_chunks\<close> takes the maximum with
  \<open>1\<close>, so the job of a file of size \<open>0\<close> has one chunk, where
  \<open>ceil(0 / CHUNK_SIZE)\<close> is \<open>0\<close>.
\<close>

theorem empty_file_one_chunk:
  "states (scan_discover CHUNK_SIZE (\<lambda>b. ''e3b0'')
        [\<lparr>de_name = ''empty.log'', de_is_file = True, de_content = Some []\<rparr>]
        \<lparr>is_host = False, states = Map.empty, state_files = Map.empty\<rparr>) ''e3b0''
     = Some \<lparr>file_path = ''empty.log'', file_id = ''e3b0'', total = 1, sent = {},
             retries = 0, last_try = 0\<rparr>
   \<and> total_chunks CHUNK_SIZE (length ([] :: byte list)) = 1
   \<and> \<lceil>real (length ([] :: byte list)) / real CHUNK_SIZE\<rceil> = 0"
  by (simp add: scan_discover_def total_chunks_def Let_def new_fragment_state_def CHUNK_SIZE_def)



subsection \<open>Pending indices and send rounds\<close>



lemma set_pending_indices: "set (pending_indices fs) = {0..total fs - 1} - sent fs"
  by (auto simp: pending_indices_def)

lemma distinct_pending_indices: "distinct (pending_indices fs)"
  by (simp add: pending_indices_def)

lemma sorted_pending_indices: "sorted (pending_indices fs)"
  by (simp add: pending_indices_def sorted_wrt_filter)

lemma send_chunks_calls:
  "\<exists>k. map call_index (calls (send_chunks cs send hop file idxs r))
        = map call_index (calls r) @ take k idxs"
proof (induction idxs arbitrary: r)
  case Nil
  show ?case by simp
next
  case (Cons idx rest)
  show ?case
  proof (cases "chunk_at cs file idx")
    case None
    then have "map call_index (calls (send_chunks cs send hop file (idx # rest) r))
        = map call_index (calls r) @ take 0 (idx # rest)" by simp
    then show ?thesis by blast
  next
    case (Some bytes)
    let ?r1 = "r\<lparr>calls := calls r @ [(hop, Some bytes, (file_id (job r), idx))]\<rparr>"
    show ?thesis
    proof (cases "send hop (Some bytes) (file_id (job r), idx)")
      case SendOk
      let ?fs = "(job ?r1)\<lparr>sent := insert idx (sent (job ?r1))\<rparr>"
      let ?r2 = "?r1\<lparr>job := ?fs, saved := save_state ?fs (saved ?r1)\<rparr>"
      obtain k where "map call_index (calls (send_chunks cs send hop file rest ?r2))
        = map call_index (calls ?r2) @ take k rest" using Cons.IH [of ?r2] by blast
      then have "map call_index (calls (send_chunks cs send hop file (idx # rest) r))
        = map call_index (calls r) @ take (Suc k) (idx # rest)"
        using Some SendOk by (simp add: Let_def call_index_def)
      then show ?thesis by blast
    next
      case SendFailed
      then have "map call_index (calls (send_chunks cs send hop file (idx # rest) r))
        = map call_index (calls r) @ take (Suc 0) (idx # rest)"
        using Some by (simp add: Let_def call_index_def)
      then show ?thesis by blast
    next
      case SendRaised
      then have "map call_index (calls (send_chunks cs send hop file (idx # rest) r))
        = map call_index (calls r) @ take (Suc 0) (idx # rest)"
        using Some by (simp add: Let_def call_index_def)
      then show ?thesis by blast
    qed
  qed
qed

lemma send_task_calls:
  "\<exists>k. map call_index (calls (send_task cs send next_hop file now fs files))
        = take k (pending_indices fs)"
proof (cases "next_hop = None \<or> next_hop = Some []")
  case True
  then have "map call_index (calls (send_task cs send next_hop file now fs files))
        = take 0 (pending_indices fs)"
    by (auto simp: send_task_def)
  then show ?thesis by blast
next
  case False
  then obtain hop where hop: "next_hop = Some hop" "hop \<noteq> []" by auto
  let ?fs1 = "fs\<lparr>last_try := now\<rparr>"
  have p1: "pending_indices ?fs1 = pending_indices fs" by (simp add: pending_indices_def)
  show ?thesis
  proof (cases "total fs = 1 \<and> 0 \<notin> sent fs")
    case True
    then have p: "pending_indices fs = [0]" by (simp add: pending_indices_def)
    have "map call_index (calls (send_task cs send next_hop file now fs files)) = [0]"
      using True hop by (simp add: send_task_def Let_def call_index_def split: send_result.splits)
    then have "map call_index (calls (send_task cs send next_hop file now fs files))
        = take 1 (pending_indices fs)" using p by simp
    then show ?thesis by blast
  next
    case False
    let ?r1 = "\<lparr>job = ?fs1, saved = files, calls = [], raised = False\<rparr>"
    have "send_task cs send next_hop file now fs files
        = send_chunks cs send hop file (pending_indices fs) ?r1"
      using False hop p1 by (auto simp: send_task_def Let_def)
    then show ?thesis using send_chunks_calls [of cs send hop "file" "pending_indices fs" ?r1]
      by simp
  qed
qed

text \<open>
  Once a job has been reloaded by \<open>from_dict\<close> from a record with \<open>total = n\<close>
  and sent list \<open>S\<close>, its pending indices are exactly \<open>{0..n-1} - S\<close>, in
  ascending order and without repetition, and a send round \<open>_send_task\<close> for it,
  whatever the next hop, the file and the answers of the transport are, calls
  \<open>send\<close> only for indices of that complement, each at most once.
\<close>

theorem resume_after_restart:
  assumes "from_dict path d = Some fs"
  shows "d_total d = Some (total fs)
    \<and> sent fs = set (case d_sent d of None \<Rightarrow> [] | Some xs \<Rightarrow> xs)
    \<and> set (pending_indices fs) = {0..total fs - 1} - sent fs
    \<and> distinct (pending_indices fs) \<and> sorted (pending_indices fs)
    \<and> set (map call_index (calls (send_task cs send next_hop file now fs files)))
         \<subseteq> {0..total fs - 1} - sent fs
    \<and> distinct (map call_index (calls (send_task cs send next_hop file now fs files)))"
proof -
  have a: "d_total d = Some (total fs)"
    "sent fs = set (case d_sent d of None \<Rightarrow> [] | Some xs \<Rightarrow> xs)"
    using assms by (auto simp: from_dict_def split: option.splits)
  obtain k where k: "map call_index (calls (send_task cs send next_hop file now fs files))
        = take k (pending_indices fs)" using send_task_calls by blast
  have "set (take k (pending_indices fs)) \<subseteq> {0..total fs - 1} - sent fs"
    using set_take_subset [of k "pending_indices fs"] by (simp add: set_pending_indices)
  moreover have "distinct (take k (pending_indices fs))"
    by (simp add: distinct_pending_indices)
  ultimately show ?thesis
    using a k by (simp add: set_pending_indices distinct_pending_indices sorted_pending_indices)
qed


theorem resume_after_restart_witness:
  "from_dict ''out/a.log''
      \<lparr>d_file_id = Some ''f1'', d_total = Some 4, d_sent = Some [0, 2],
       d_retries = Some 1, d_last_try = None\<rparr>
     = Some \<lparr>file_path = ''out/a.log'', file_id = ''f1'', total = 4, sent = {0, 2},
             retries = 1, last_try = 0\<rparr>
   \<and> pending_indices \<lparr>file_path = ''out/a.log'', file_id = ''f1'', total = 4, sent = {0, 2},
             retries = 1, last_try = 0\<rparr> = [1, 3]
   \<and> map call_index (calls (send_task 2 (\<lambda>hop bytes (fid, i). if i = 1 then SendOk else SendFailed)
         (Some ''N'') (Some [1, 2, 3, 4, 5, 6, 7, 8]) 9
         \<lparr>file_path = ''out/a.log'', file_id = ''f1'', total = 4, sent = {0, 2},
             retries = 1, last_try = 0\<rparr> Map.empty)) = [1, 3]
   \<and> set (map call_index (calls (send_task 2 (\<lambda>hop bytes (fid, i). if i = 1 then SendOk else SendFailed)
         (Some ''N'') (Some [1, 2, 3, 4, 5, 6, 7, 8]) 9
         \<lparr>file_path = ''out/a.log'', file_id = ''f1'', total = 4, sent = {0, 2},
             retries = 1, last_try = 0\<rparr> Map.empty))) \<subseteq> {0..4 - 1} - {0, 2}"
proof -
  let ?d = "\<lparr>d_file_id = Some ''f1'', d_total = Some 4, d_sent = Some [0, 2],
       d_retries = Some 1, d_last_try = None\<rparr>"
  let ?fs = "\<lparr>file_path = ''out/a.log'', file_id = ''f1'', total = 4, sent = {0, 2},
             retries = 1, last_try = 0\<rparr>"
  let ?send = "\<lambda>(hop::string) (bytes::byte list option) (fid::string, i::int). if i = 1 then SendOk else SendFailed"
  have u: "[0..(3::int)] = [0, 1, 2, 3]" by (simp add: upto.simps)
  have h: "from_dict ''out/a.log'' ?d = Some ?fs" by (simp add: from_dict_def)
  have p: "pending_indices ?fs = [1, 3]" by (simp add: pending_indices_def u)
  have r1: "read_chunks 2 [3, 4, 5, 6, 7, 8] 1 = (1, [3, 4]) # read_chunks 2 [5, 6, 7, 8] 2"
    by (subst read_chunks.simps) simp
  have r3: "read_chunks 2 [7, 8] 3 = (3, [7, 8]) # read_chunks 2 [] 4"
    by (subst read_chunks.simps) simp
  have c1: "chunk_at 2 (Some [1, 2, 3, 4, 5, 6, 7, 8]) 1 = Some [3, 4]"
    by (simp add: chunk_at_def iter_chunks_def r1)
  have c3: "chunk_at 2 (Some [1, 2, 3, 4, 5, 6, 7, 8]) 3 = Some [7, 8]"
    by (simp add: chunk_at_def iter_chunks_def r3)
  have c: "map call_index (calls (send_task 2 ?send (Some ''N'') (Some [1, 2, 3, 4, 5, 6, 7, 8]) 9 ?fs Map.empty)) = [1, 3]"
    by (simp add: send_task_def p Let_def c1 c3 call_index_def pending_indices_def u)
  show ?thesis
    using resume_after_restart [OF h, of 2 ?send "Some ''N''" "Some [1, 2, 3, 4, 5, 6, 7, 8]" 9 Map.empty]
    using h p c by simp
qed


subsection \<open>Splitting and reassembly\<close>

lemma read_chunks_head:
  "take cs rest \<noteq> [] \<Longrightarrow> read_chunks cs rest idx = (idx, take cs rest) # read_chunks cs (drop cs rest) (idx + 1)"
  by (subst read_chunks.simps) simp

lemma read_chunks_empty:
  "take cs rest = [] \<Longrightarrow> read_chunks cs rest idx = []"
  by (subst read_chunks.simps) simp

lemma read_chunks_concat: "0 < cs \<Longrightarrow> concat (map snd (read_chunks cs rest idx)) = rest"
proof (induction cs rest idx rule: read_chunks.induct)
  case (1 cs rest idx)
  show ?case
  proof (cases "take cs rest = []")
    case True
    then have "rest = []" using 1(2) by (simp add: take_eq_Nil)
    then show ?thesis by (simp add: read_chunks_empty)
  next
    case False
    have "concat (map snd (read_chunks cs (drop cs rest) (idx + 1))) = drop cs rest"
      using 1(1) [OF False 1(2)] .
    then show ?thesis using False by (simp add: read_chunks_head)
  qed
qed

lemma chunk_at_in_range:
  assumes "0 < cs" "0 \<le> idx" "nat idx * cs < length bytes"
  shows "chunk_at cs (Some bytes) idx = Some (take cs (drop (nat idx * cs) bytes))"
proof -
  have "take cs (drop (nat idx * cs) bytes) \<noteq> []" using assms by (simp add: take_eq_Nil)
  then show ?thesis using assms(2)
    by (simp add: chunk_at_def iter_chunks_def read_chunks_head)
qed

lemma concat_chunks_nat:
  "concat (map (\<lambda>i. take cs (drop (i * cs) xs)) [0..<n]) = take (n * cs) xs"
proof (induction n)
  case 0
  show ?case by simp
next
  case (Suc n)
  have "Suc n * cs = n * cs + cs" by simp
  then have "take (Suc n * cs) xs = take (n * cs) xs @ take cs (drop (n * cs) xs)"
    by (simp only: take_add)
  then show ?case using Suc by simp
qed


lemma upto_as_upt: "[0..int n - 1] = map int [0..<n]"
proof (induction n)
  case 0
  show ?case by simp
next
  case (Suc n)
  have "[0..int (Suc n) - 1] = [0..int n]" by simp
  also have "\<dots> = [0..int n - 1] @ [int n]" by (simp add: upto_rec2)
  finally show ?case using Suc by simp
qed


lemma read_chunks_length:
  "0 < cs \<Longrightarrow> length (read_chunks cs rest idx) = (length rest + cs - 1) div cs"
proof (induction cs rest idx rule: read_chunks.induct)
  case (1 cs rest idx)
  show ?case
  proof (cases "take cs rest = []")
    case True
    then have "rest = []" using 1(2) by (simp add: take_eq_Nil)
    then show ?thesis using 1(2) by (simp add: read_chunks_empty)
  next
    case False
    have ih: "length (read_chunks cs (drop cs rest) (idx + 1)) = (length rest - cs + cs - 1) div cs"
      using 1(1) [OF False 1(2)] by simp
    have pos: "0 < length rest" using False by auto
    show ?thesis
    proof (cases "cs \<le> length rest")
      case True
      then have "(length rest + cs - 1) div cs = Suc ((length rest - 1) div cs)"
        using 1(2) pos
        by (metis Nat.add_diff_assoc2 One_nat_def Suc_leI add.commute div_add_self1 less_numeral_extra(3) plus_1_eq_Suc)
      then show ?thesis using ih True False by (simp add: read_chunks_head)
    next
      case less: False
      obtain k where k: "length rest = Suc k" using pos by (cases "length rest") auto
      have "(Suc k + cs - 1) div cs = 1" using less k by (intro div_nat_eqI) auto
      then have "(length rest + cs - 1) div cs = 1" by (simp only: k)
      moreover have "(length rest - cs + cs - 1) div cs = 0" using less by simp
      moreover note ih
      ultimately show ?thesis using ih False by (simp add: read_chunks_head)
    qed
  qed
qed

lemma read_chunks_fst:
  "map fst (read_chunks cs rest idx) = map (\<lambda>j. idx + int j) [0..<length (read_chunks cs rest idx)]"
proof (induction cs rest idx rule: read_chunks.induct)
  case (1 cs rest idx)
  show ?case
  proof (cases "take cs rest = []")
    case True
    then show ?thesis by (simp add: read_chunks_empty)
  next
    case False
    let ?t = "read_chunks cs (drop cs rest) (idx + 1)"
    have "map (\<lambda>j. idx + int j) [0..<Suc (length ?t)]
        = idx # map (\<lambda>j. idx + int j) (map Suc [0..<length ?t])"
      by (simp only: upt_conv_Cons [of 0] map_Suc_upt list.map) simp
    also have "\<dots> = idx # map (\<lambda>j. idx + 1 + int j) [0..<length ?t]" by simp
    also have "\<dots> = idx # map fst ?t" using 1 [OF False] by simp
    finally show ?thesis using False by (simp add: read_chunks_head)
  qed
qed

lemma read_chunks_at:
  "rest = drop (s * cs) file \<Longrightarrow> idx = int s \<Longrightarrow> (i, d) \<in> set (read_chunks cs rest idx)
     \<Longrightarrow> d = take cs (drop (nat i * cs) file) \<and> d \<noteq> []"
proof (induction cs rest idx arbitrary: s rule: read_chunks.induct)
  case (1 cs rest idx)
  show ?case
  proof (cases "take cs rest = []")
    case True
    then show ?thesis using 1(4) by (simp add: read_chunks_empty)
  next
    case False
    then have "(i, d) = (idx, take cs rest) \<or> (i, d) \<in> set (read_chunks cs (drop cs rest) (idx + 1))"
      using 1(4) by (simp add: read_chunks_head)
    then show ?thesis
    proof
      assume "(i, d) = (idx, take cs rest)"
      then show ?thesis using False 1(2,3) by simp
    next
      assume a: "(i, d) \<in> set (read_chunks cs (drop cs rest) (idx + 1))"
      have "drop cs rest = drop (Suc s * cs) file" using 1(2) by (simp add: add.commute)
      moreover have "idx + 1 = int (Suc s)" using 1(3) by simp
      ultimately show ?thesis using 1(1) [OF False _ _ a] by blast
    qed
  qed
qed


lemma send_chunks_all_ok:
  assumes "\<forall>idx \<in> set idxs. chunk_at cs file idx = Some (g idx)"
  shows "calls (send_chunks cs (\<lambda>h b k. SendOk) hop file idxs r)
           = calls r @ map (\<lambda>idx. (hop, Some (g idx), (file_id (job r), idx))) idxs
       \<and> sent (job (send_chunks cs (\<lambda>h b k. SendOk) hop file idxs r)) = sent (job r) \<union> set idxs
       \<and> file_id (job (send_chunks cs (\<lambda>h b k. SendOk) hop file idxs r)) = file_id (job r)
       \<and> total (job (send_chunks cs (\<lambda>h b k. SendOk) hop file idxs r)) = total (job r)"
  using assms
proof (induction idxs arbitrary: r)
  case Nil
  show ?case by simp
next
  case (Cons idx rest)
  let ?r1 = "r\<lparr>calls := calls r @ [(hop, Some (g idx), (file_id (job r), idx))]\<rparr>"
  let ?fs = "(job ?r1)\<lparr>sent := insert idx (sent (job ?r1))\<rparr>"
  let ?r2 = "?r1\<lparr>job := ?fs, saved := save_state ?fs (saved ?r1)\<rparr>"
  have c: "chunk_at cs file idx = Some (g idx)" using Cons.prems by simp
  have step: "send_chunks cs (\<lambda>h b k. SendOk) hop file (idx # rest) r
      = send_chunks cs (\<lambda>h b k. SendOk) hop file rest ?r2"
    by (simp add: c Let_def)
  have "\<forall>i \<in> set rest. chunk_at cs file i = Some (g i)" using Cons.prems by simp
  from Cons.IH [OF this, of ?r2] show ?case
    by (simp only: step) auto
qed

lemma deliver_calls_map:
  "deliver_calls (map (\<lambda>idx. (hop, Some (g idx), (fid, idx))) idxs) m (fid, i)
     = (if i \<in> set idxs then Some (g i) else m (fid, i))"
  by (induction idxs arbitrary: m) auto

lemma assemble_frags_all:
  assumes "distinct idxs"
    and "\<forall>i \<in> set idxs. incoming_frags rc (fid, i) = None \<and> tmp_frags rc (fid, i) = Some (g i)"
  shows "\<exists>rc'. assemble_frags fid idxs rc out = (True, rc', out @ concat (map g idxs))
           \<and> outputs rc' = outputs rc \<and> rstates rc' = rstates rc"
  using assms
proof (induction idxs arbitrary: rc out)
  case Nil
  show ?case by simp
next
  case (Cons idx rest)
  let ?rc = "rc\<lparr>tmp_frags := (tmp_frags rc)((fid, idx) := None)\<rparr>"
  have step: "assemble_frags fid (idx # rest) rc out = assemble_frags fid rest ?rc (out @ g idx)"
    using Cons.prems(2) by simp
  have "distinct rest" using Cons.prems(1) by simp
  moreover have "\<forall>i \<in> set rest. incoming_frags ?rc (fid, i) = None \<and> tmp_frags ?rc (fid, i) = Some (g i)"
    using Cons.prems by auto
  ultimately obtain rc' where
    "assemble_frags fid rest ?rc (out @ g idx) = (True, rc', (out @ g idx) @ concat (map g rest))"
    "outputs rc' = outputs ?rc" "rstates rc' = rstates ?rc"
    using Cons.IH [of ?rc "out @ g idx"] by blast
  then show ?case unfolding step by auto
qed

lemma total_chunks_nat:
  "0 < cs \<Longrightarrow> total_chunks cs n = int (max 1 ((n + cs - 1) div cs))"
proof -
  assume c: "0 < cs"
  have "int n + int cs - 1 = int (n + cs - 1)" using c by (simp add: of_nat_diff)
  then have "(int n + int cs - 1) div int cs = int ((n + cs - 1) div cs)"
    by (simp only: zdiv_int)
  then show ?thesis by (simp add: total_chunks_def)
qed

lemma chunks_cover:
  assumes "0 < cs"
  shows "length xs \<le> ((length xs + cs - 1) div cs) * cs"
proof -
  have "length xs + cs - 1 < ((length xs + cs - 1) div cs) * cs + cs"
    using assms by (metis add.commute dividend_less_div_times)
  then show ?thesis by linarith
qed


lemma concat_chunks_all:
  assumes "0 < cs" "length xs \<le> n * cs"
  shows "concat (map (\<lambda>idx. take cs (drop (nat idx * cs) xs)) [0..int n - 1]) = xs"
proof -
  have "concat (map (\<lambda>idx. take cs (drop (nat idx * cs) xs)) [0..int n - 1])
      = concat (map (\<lambda>i. take cs (drop (i * cs) xs)) [0..<n])"
    by (simp add: upto_as_upt comp_def)
  also have "\<dots> = take (n * cs) xs" by (rule concat_chunks_nat)
  finally show ?thesis using assms(2) by simp
qed

lemma send_task_all_ok:
  assumes cs: "0 < cs" and hop: "hop \<noteq> []"
    and n_def: "n = max 1 ((length bytes + cs - 1) div cs)"
    and r_def: "r = send_task cs (\<lambda>h b k. SendOk) (Some hop) (Some bytes) now
                   (new_fragment_state path fid (total_chunks cs (length bytes))) files"
  shows "calls r = map (\<lambda>idx. (hop, Some (take cs (drop (nat idx * cs) bytes)), (fid, idx))) [0..int n - 1]
       \<and> sent (job r) = {0..int n - 1} \<and> file_id (job r) = fid \<and> total (job r) = int n"
proof -
  let ?g = "\<lambda>idx. take cs (drop (nat idx * cs) bytes)"
  let ?fs = "new_fragment_state path fid (total_chunks cs (length bytes))"
  let ?fs1 = "?fs\<lparr>last_try := now\<rparr>"
  have tot: "total_chunks cs (length bytes) = int n"
    using cs by (simp add: total_chunks_nat n_def)
  have npos: "1 \<le> n" by (simp add: n_def)
  show ?thesis
  proof (cases "n = 1")
    case True
    then have "(length bytes + cs - 1) div cs \<le> 1" by (simp add: n_def)
    then have "((length bytes + cs - 1) div cs) * cs \<le> cs" by (metis mult_le_mono1 nat_mult_1)
    then have le: "length bytes \<le> cs" using chunks_cover [OF cs, of bytes] by linarith
    have "r = \<lparr>job = ?fs1\<lparr>sent := insert 0 (sent ?fs1)\<rparr>,
               saved = save_state (?fs1\<lparr>sent := insert 0 (sent ?fs1)\<rparr>) files,
               calls = [(hop, Some bytes, (fid, 0))], raised = False\<rparr>"
      using True hop tot by (simp add: r_def send_task_def new_fragment_state_def Let_def)
    then show ?thesis using True le tot by (simp add: new_fragment_state_def)
  next
    case False
    then have n2: "2 \<le> n" using npos by simp
    then have nd: "n = (length bytes + cs - 1) div cs" by (simp add: n_def)
    have le: "n * cs \<le> length bytes + cs - 1" using nd by simp
    have len: "0 < length bytes"
    proof (rule ccontr)
      assume "\<not> 0 < length bytes"
      then have "(length bytes + cs - 1) div cs = 0" using cs by simp
      then show False using nd n2 by simp
    qed
    obtain m where m: "n = Suc m" using n2 by (cases n) auto
    have "m * cs + cs \<le> length bytes + cs - 1" using le by (simp add: m)
    then have "m * cs < length bytes" using len by linarith
    then have bound: "(n - 1) * cs < length bytes" by (simp add: m)
    let ?r1 = "\<lparr>job = ?fs1, saved = files, calls = [], raised = False\<rparr>"
    have pend: "pending_indices ?fs1 = [0..int n - 1]"
      by (simp add: pending_indices_def new_fragment_state_def tot)
    have rr: "r = send_chunks cs (\<lambda>h b k. SendOk) hop (Some bytes) [0..int n - 1] ?r1"
      using hop n2 tot pend by (simp add: r_def send_task_def Let_def new_fragment_state_def)
    have "\<forall>idx \<in> set [0..int n - 1]. chunk_at cs (Some bytes) idx = Some (?g idx)"
    proof
      fix idx assume "idx \<in> set [0..int n - 1]"
      then have i: "0 \<le> idx" "nat idx \<le> n - 1" by auto
      then have "nat idx * cs \<le> (n - 1) * cs" by simp
      then have "nat idx * cs < length bytes" using bound by linarith
      then show "chunk_at cs (Some bytes) idx = Some (?g idx)"
        using chunk_at_in_range [OF cs i(1)] by simp
    qed
    from send_chunks_all_ok [OF this, where hop = hop and r = ?r1]
    show ?thesis unfolding rr by (simp add: new_fragment_state_def tot)
  qed
qed


text \<open>
  Claim C2 (chunk round trip). For a positive chunk size \<open>cs\<close> and any file,
  \<open>_iter_chunks\<close> from index \<open>0\<close> yields \<open>ceil(size / cs)\<close> chunks, numbered
  \<open>0, 1, ...\<close>, the chunk of index \<open>i\<close> being the at most \<open>cs\<close> bytes at offset
  \<open>i * cs\<close>, and their concatenation in that order is the file. End to end: when a
  send round for a new job of the file succeeds on every call, the job is done, and
  \<open>_assemble\<close> on the fragments those calls delivered writes exactly the bytes of
  the file.
\<close>

theorem chunk_round_trip:
  assumes "0 < cs" and "hop \<noteq> []"
  shows "(\<exists>chunks. iter_chunks cs bytes 0 = Some chunks
            \<and> length chunks = (length bytes + cs - 1) div cs
            \<and> map fst chunks = [0..int (length chunks) - 1]
            \<and> (\<forall>(i, d) \<in> set chunks. d = take cs (drop (nat i * cs) bytes) \<and> d \<noteq> [])
            \<and> concat (map snd chunks) = bytes)
       \<and> (let r = send_task cs (\<lambda>h b k. SendOk) (Some hop) (Some bytes) now
                     (new_fragment_state path fid (total_chunks cs (length bytes))) files;
                rc = \<lparr>incoming_frags = Map.empty, tmp_frags = deliver_calls (calls r) Map.empty,
                      outputs = outs, rstates = sts\<rparr>
            in fs_done (job r) \<and> outputs (assemble rc (job r)) (take 16 fid) = Some bytes)"
proof -
  let ?chunks = "read_chunks cs bytes 0"
  have c0: "iter_chunks cs bytes 0 = Some ?chunks" by (simp add: iter_chunks_def)
  have c1: "length ?chunks = (length bytes + cs - 1) div cs"
    using assms(1) by (rule read_chunks_length)
  have c2: "map fst ?chunks = [0..int (length ?chunks) - 1]"
    using read_chunks_fst [of cs bytes 0] by (simp add: upto_as_upt)
  have c3: "\<forall>(i, d) \<in> set ?chunks. d = take cs (drop (nat i * cs) bytes) \<and> d \<noteq> []"
    using read_chunks_at [of bytes 0 cs bytes 0] by auto
  have c4: "concat (map snd ?chunks) = bytes" using assms(1) by (rule read_chunks_concat)
  define n where "n = max 1 ((length bytes + cs - 1) div cs)"
  define r where "r = send_task cs (\<lambda>h b k. SendOk) (Some hop) (Some bytes) now
                     (new_fragment_state path fid (total_chunks cs (length bytes))) files"
  define rc where "rc = \<lparr>incoming_frags = Map.empty, tmp_frags = deliver_calls (calls r) Map.empty,
                      outputs = outs, rstates = sts\<rparr>"
  let ?g = "\<lambda>idx. take cs (drop (nat idx * cs) bytes)"
  have s: "calls r = map (\<lambda>idx. (hop, Some (?g idx), (fid, idx))) [0..int n - 1]"
    "sent (job r) = {0..int n - 1}" "file_id (job r) = fid" "total (job r) = int n"
    using send_task_all_ok [OF assms n_def r_def] by simp_all
  have d: "fs_done (job r)" by (simp add: fs_done_def s)
  have "\<forall>i \<in> set [0..int n - 1]. incoming_frags rc (fid, i) = None \<and> tmp_frags rc (fid, i) = Some (?g i)"
    by (simp add: rc_def s(1) deliver_calls_map)
  then obtain rc' where a: "assemble_frags fid [0..int n - 1] rc [] = (True, rc', [] @ concat (map ?g [0..int n - 1]))"
    "outputs rc' = outputs rc"
    using assemble_frags_all [of "[0..int n - 1]" rc fid ?g "[]"] by auto
  have "length bytes \<le> n * cs"
  proof -
    have "length bytes \<le> ((length bytes + cs - 1) div cs) * cs" using assms(1) by (rule chunks_cover)
    also have "\<dots> \<le> n * cs" by (simp add: n_def)
    finally show ?thesis .
  qed
  then have "concat (map ?g [0..int n - 1]) = bytes" using assms(1) by (intro concat_chunks_all)
  then have "assemble_frags (file_id (job r)) [0..total (job r) - 1] rc [] = (True, rc', bytes)"
    using a by (simp add: s)
  then have "outputs (assemble rc (job r)) (take 16 fid) = Some bytes"
    by (simp add: assemble_def s Let_def)
  then show ?thesis using c0 c1 c2 c3 c4 d unfolding r_def rc_def Let_def by blast
qed


theorem chunk_round_trip_witness:
  "(0::nat) < 2 \<and> ''N'' \<noteq> []
   \<and> iter_chunks 2 [1, 2, 3, 4, 5] 0 = Some [(0, [1, 2]), (1, [3, 4]), (2, [5])]
   \<and> total_chunks 2 (length [1, 2, 3, 4, 5 :: byte]) = 3
   \<and> (let r = send_task 2 (\<lambda>h b k. SendOk) (Some ''N'') (Some [1, 2, 3, 4, 5]) 7
                 (new_fragment_state ''a.log'' ''f1'' (total_chunks 2 (length [1, 2, 3, 4, 5 :: byte])))
                 Map.empty;
            rc = \<lparr>incoming_frags = Map.empty, tmp_frags = deliver_calls (calls r) Map.empty,
                  outputs = Map.empty, rstates = Map.empty\<rparr>
        in fs_done (job r) \<and> outputs (assemble rc (job r)) (take 16 ''f1'') = Some [1, 2, 3, 4, 5])"
proof -
  have r0: "read_chunks 2 [1, 2, 3, 4, 5 :: byte] 0 = [(0, [1, 2]), (1, [3, 4]), (2, [5])]"
    by (simp add: read_chunks_head read_chunks_empty)
  have i: "iter_chunks 2 [1, 2, 3, 4, 5] 0 = Some [(0, [1, 2]), (1, [3, 4]), (2, [5])]"
    by (simp add: iter_chunks_def r0)
  have t: "total_chunks 2 (length [1, 2, 3, 4, 5 :: byte]) = 3" by (simp add: total_chunks_def)
  show ?thesis
    using chunk_round_trip [where cs = 2 and hop = "''N''" and bytes = "[1, 2, 3, 4, 5]"
        and now = 7 and path = "''a.log''" and fid = "''f1''" and files = Map.empty
        and outs = Map.empty and sts = Map.empty]
    using i t by simp
qed


subsection \<open>Restart\<close>

text \<open>
  Claim C3 (resume after a restart). The claim fails on the restart itself. The
  persisted record of the job of \<open>a.log\<close> holds \<open>S = {0, 2}\<close> of \<open>n = 4\<close> chunks.
  On the restart \<open>_load_states\<close> looks for a file whose name contains the first
  eight characters of the file id, finds none, and unlinks the record: no job is
  reloaded. The next scan finds the file and makes a new job for it with nothing sent;
  its pending indices are all of \<open>0..3\<close>, and a send round for it sends every one of
  them, the indices \<open>0\<close> and \<open>2\<close> of \<open>S\<close> among them.
\<close>

theorem restart_discards_record:
  "state_files stopped_mailbag demo_id = Some demo_record
   \<and> d_total demo_record = Some 4 \<and> d_sent demo_record = Some [0, 2]
   \<and> states (load_states demo_dir [demo_id] stopped_mailbag) demo_id = None
   \<and> state_files (load_states demo_dir [demo_id] stopped_mailbag) demo_id = None
   \<and> states restarted_mailbag demo_id
       = Some \<lparr>file_path = ''a.log'', file_id = demo_id, total = 4, sent = {},
               retries = 0, last_try = 0\<rparr>
   \<and> pending_indices \<lparr>file_path = ''a.log'', file_id = demo_id, total = 4, sent = {},
               retries = 0, last_try = 0\<rparr> = [0, 1, 2, 3]
   \<and> map call_index (calls (send_task 2 (\<lambda>hop bytes remote. SendOk) (Some ''N'') (Some demo_file) 9
         \<lparr>file_path = ''a.log'', file_id = demo_id, total = 4, sent = {},
               retries = 0, last_try = 0\<rparr> (state_files restarted_mailbag)))
       = [0, 1, 2, 3]"
proof -
  let ?fs = "\<lparr>file_path = ''a.log'', file_id = demo_id, total = 4, sent = {},
               retries = 0, last_try = 0\<rparr>"
  have nc: "\<not> contains (take 8 demo_id) ''a.log''"
    by (simp add: demo_id_def)
  have l: "load_states demo_dir [demo_id] stopped_mailbag
      = \<lparr>is_host = False, states = Map.empty, state_files = Map.empty\<rparr>"
    using nc by (simp add: stopped_mailbag_def demo_dir_def demo_record_def)
  have t: "total_chunks 2 (length demo_file) = 4"
    by (simp add: total_chunks_def demo_file_def)
  have r: "states restarted_mailbag demo_id = Some ?fs"
    unfolding restarted_mailbag_def l
    by (simp add: scan_discover_def demo_dir_def Let_def t new_fragment_state_def)
  have u: "[0..(3::int)] = [0, 1, 2, 3]" by (simp add: upto.simps)
  have p: "pending_indices ?fs = [0, 1, 2, 3]" by (simp add: pending_indices_def u)
  let ?fs9 = "\<lparr>file_path = ''a.log'', file_id = demo_id, total = 4, sent = {},
               retries = 0, last_try = 9\<rparr>"
  let ?r1 = "\<lparr>job = ?fs9, saved = state_files restarted_mailbag, calls = [], raised = False\<rparr>"
  have "\<forall>idx \<in> set [0, 1, 2, 3 :: int]. chunk_at 2 (Some demo_file) idx
      = Some (take 2 (drop (nat idx * 2) demo_file))"
    by (intro ballI chunk_at_in_range) (auto simp: demo_file_def)
  from send_chunks_all_ok [OF this, where hop = "''N''" and r = ?r1]
  have sc: "map call_index (calls (send_chunks 2 (\<lambda>hop bytes remote. SendOk) ''N'' (Some demo_file)
                [0, 1, 2, 3] ?r1)) = [0, 1, 2, 3]"
    by (simp add: call_index_def comp_def del: send_chunks.simps)
  have p1: "pending_indices ?fs9 = [0, 1, 2, 3]"
    by (simp add: pending_indices_def u)
  have st: "send_task 2 (\<lambda>hop bytes remote. SendOk) (Some ''N'') (Some demo_file) 9 ?fs
              (state_files restarted_mailbag)
      = send_chunks 2 (\<lambda>hop bytes remote. SendOk) ''N'' (Some demo_file) [0, 1, 2, 3] ?r1"
    by (simp add: send_task_def Let_def p1 del: send_chunks.simps)
  have c: "map call_index (calls (send_task 2 (\<lambda>hop bytes remote. SendOk) (Some ''N'') (Some demo_file) 9
         ?fs (state_files restarted_mailbag))) = [0, 1, 2, 3]"
    unfolding st by (rule sc)
  have s0: "state_files stopped_mailbag demo_id = Some demo_record"
    by (simp add: stopped_mailbag_def)
  have "states (load_states demo_dir [demo_id] stopped_mailbag) demo_id = None"
    "state_files (load_states demo_dir [demo_id] stopped_mailbag) demo_id = None"
    unfolding l by simp_all
  then show ?thesis using s0 r p c by (simp add: demo_record_def del: load_states.simps)
qed

section \<open>Properties of the export bridge\<close>















section \<open>Properties of the receive path\<close>

text \<open>
  What the receive path does drop: a connection that the SSH layer has not
  authenticated, a sender without a known key, a packet without \<open>data\<close> or without a
  hexadecimal \<open>signature\<close>, and a verification that raises. In each case the state is
  as before and no handler has run.
\<close>

lemma dropped_unless_verified:
  "\<not> verify_signed tr lib packet peer_fp \<Longrightarrow> loads lib buf = Some packet \<Longrightarrow>
     handle_conn tr lib (Received (Some peer_fp) buf) st
       = (if buf = [] then EmptyMessage else BadSignature, st)"
  by (simp add: handle_conn_def)

lemma unknown_sender_rejected:
  "known_keys tr sender_fp = None \<Longrightarrow> \<not> verify_signed tr lib packet sender_fp"
  by (simp add: verify_signed_def)

lemma raising_verification_rejected:
  "(\<And>k p s. verify_ssh_sig lib k p s = VerifyRaises) \<Longrightarrow> \<not> verify_signed tr lib packet sender_fp"
  by (auto simp: verify_signed_def split: option.splits json.splits)

lemma unauthenticated_dropped:
  "handle_conn tr lib (Received None buf) st = (NotAuthenticated, st)"
  by (simp add: handle_conn_def)

lemma verify_signed_ignores_result:
  assumes "known_keys tr sender_fp = Some key"
    and "py_subscript packet ''data'' = Some data"
    and "py_subscript packet ''signature'' = Some (JStr s)"
    and "fromhex lib s = Some sig"
    and "verify_ssh_sig lib key (dumps lib data) sig = VerifyReturns b"
  shows "verify_signed tr lib packet sender_fp"
  using assms by (simp add: verify_signed_def)

text \<open>
  Claim C5 (signature rejection). The claim fails on the code whenever the library
  reports a signature that does not verify by returning false, as paramiko's
  \<open>verify_ssh_sig\<close> does: \<open>_verify_signed\<close> discards that answer and returns
  true. For a peer of the allow-list, a message with a JSON body, a hexadecimal
  signature that does not verify against the peer's key, and the type
  \<open>pheromone\<close> is not dropped: the registered handler runs and the routing table
  takes the update with the reported value.
\<close>

theorem unverified_message_is_handled:
  assumes "known_keys tr sender_fp = Some key"
    and "buf \<noteq> []"
    and "loads lib buf = Some (JObj [(''data'', JObj kvs), (''signature'', JStr s)])"
    and "fromhex lib s = Some sig"
    and "verify_ssh_sig lib key (dumps lib (JObj kvs)) sig = VerifyReturns False"
    and "map_of kvs ''type'' = Some (JStr ''pheromone'')"
    and "map_of kvs ''value'' = Some (JNum c)"
    and "handlers tr ''pheromone'' = Some (pheromone_handler now)"
  shows "handle_conn tr lib (Received (Some sender_fp) buf) node
           = (Handled, snd (update node sender_fp c now))"
proof -
  let ?packet = "JObj [(''data'', JObj kvs), (''signature'', JStr s)]"
  have v: "verify_signed tr lib ?packet sender_fp"
    using assms(1,4,5) by (intro verify_signed_ignores_result) (simp_all add: py_subscript_def)
  have h: "pheromone_handler now sender_fp (JObj kvs) node = Done (snd (update node sender_fp c now))"
    using assms(7) by (simp add: pheromone_handler_def py_get_def as_number_def)
  show ?thesis
    using assms(2,3,6,8) v h by (simp add: handle_conn_def py_get_def py_subscript_def)
qed


theorem unverified_message_is_handled_witness:
  "known_keys demo_transport ''B'' = Some ''key of B''
   \<and> demo_buf \<noteq> []
   \<and> loads rejecting_library demo_buf = Some demo_packet
   \<and> verify_ssh_sig rejecting_library ''key of B''
        (dumps rejecting_library (JObj [(''type'', JStr ''pheromone''), (''value'', JNum (Fin 0))])) [0]
       = VerifyReturns False
   \<and> handle_conn demo_transport rejecting_library (Received (Some ''B'') demo_buf)
        (init_node ''A'' ''H'' 0)
       = (Handled, \<lparr>self_fp = ''A'', host_fp = ''H'',
                     table = [''H'' \<mapsto> \<lparr>entry_value = Fin 1, entry_next_hop = Some ''B'',
                                         entry_timestamp = 5\<rparr>]\<rparr>)"
proof -
  have k: "known_keys demo_transport ''B'' = Some ''key of B''" by (simp add: demo_transport_def)
  have b: "demo_buf \<noteq> []" by (simp add: demo_buf_def demo_text_def)
  have l: "loads rejecting_library demo_buf
      = Some (JObj [(''data'', JObj [(''type'', JStr ''pheromone''), (''value'', JNum (Fin 0))]),
                    (''signature'', JStr ''00'')])"
    by (simp add: rejecting_library_def demo_packet_def)
  have f: "fromhex rejecting_library ''00'' = Some [0]" by (simp add: rejecting_library_def)
  have v: "verify_ssh_sig rejecting_library ''key of B''
        (dumps rejecting_library (JObj [(''type'', JStr ''pheromone''), (''value'', JNum (Fin 0))])) [0]
       = VerifyReturns False" by (simp add: rejecting_library_def)
  have h: "handlers demo_transport ''pheromone'' = Some (pheromone_handler 5)"
    by (simp add: demo_transport_def)
  have u: "snd (update (init_node ''A'' ''H'' 0) ''B'' (Fin 0) 5)
      = \<lparr>self_fp = ''A'', host_fp = ''H'',
         table = [''H'' \<mapsto> \<lparr>entry_value = Fin 1, entry_next_hop = Some ''B'',
                              entry_timestamp = 5\<rparr>]\<rparr>"
    by (simp add: update_def init_node_def INF_float_def Let_def)
  have "handle_conn demo_transport rejecting_library (Received (Some ''B'') demo_buf)
        (init_node ''A'' ''H'' 0) = (Handled, snd (update (init_node ''A'' ''H'' 0) ''B'' (Fin 0) 5))"
    by (rule unverified_message_is_handled [OF k b l f v _ _ h]) simp_all
  then show ?thesis using k b l v u by (simp add: demo_packet_def)
qed


end
